theory Spec2Isabelle
  imports Main "HOL-Library.Word"
begin

section \<open>The task start-up code of arch/risc-v/src/common/crt1.c\<close>

text \<open>
  The file has three parts: the signal trampoline (inline assembly), the three runners of
  the linker-collected initializer arrays, and the entry point \<open>__start\<close>.
  Everything the file calls but does not define (the initializers, \<open>main\<close>, the
  signal handler) is a parameter of the model; what the file itself does is recorded as
  a list of events, in program order.
\<close>

subsection \<open>Data\<close>

text \<open>
  A code address (\<open>initializer_t\<close>, \<open>addrenv_sigtramp_t\<close>). \<open>0\<close> is the null
  pointer.
\<close>

type_synonym fnptr = nat

text \<open>
  An \<open>initializer_t *\<close>: pointer arithmetic on it counts array slots, so a pointer is a
  slot number, \<open>++p\<close> is \<open>p + 1\<close> and \<open>p < q\<close> compares slot numbers. The slots
  that hold an entry are the domain of the memory; reading any other slot is a fault.
\<close>

type_synonym slot_mem = "nat \<Rightarrow> fnptr option"

text \<open>
  The C type \<open>int\<close> of \<open>argc\<close>, of \<open>main\<close>'s result and of \<open>exit\<close>'s argument:
  32 bits on RISC-V.
\<close>

type_synonym c_int = "32 word"

datatype phase = Preinit | Init | Fini

text \<open>The functions of this file that it registers with \<open>atexit\<close>.\<close>

datatype hook = Exec_fini

datatype event =
    Write_sigtramp fnptr             \<comment> \<open>\<open>ARCH_DATA_RESERVE->ar_sigtramp = ...\<close>\<close>
  | Invoke phase fnptr               \<comment> \<open>\<open>initializer()\<close> in the runner of that phase\<close>
  | Atexit hook                      \<comment> \<open>\<open>atexit(...)\<close>\<close>
  | Call_main c_int "string list"   \<comment> \<open>\<open>main(argc, argv)\<close>\<close>
  | Main_returned c_int              \<comment> \<open>\<open>ret = main(...)\<close>\<close>
  | Call_exit c_int                  \<comment> \<open>\<open>exit(...)\<close>\<close>

text \<open>Why a task stopped without reaching the end of \<open>exit\<close>.\<close>

datatype halt = Fault | No_return

record 'u task =
  ar_sigtramp :: "fnptr option"   \<comment> \<open>the field of the reserved area; \<open>None\<close>: never written\<close>
  atexit_hooks :: "hook list"
  exit_status :: "c_int option"
  events :: "event list"
  user :: 'u                      \<comment> \<open>the state of the code this file calls\<close>

type_synonym 'u result = "(halt \<times> 'u task) + 'u task"

datatype 'u ending = Terminated "'u task" | Halted halt "'u task"

text \<open>
  What \<open>main\<close> does when called: it returns a value, it calls \<open>exit\<close> itself, or it
  does neither.
\<close>

datatype 'u main_outcome = Main_returns c_int 'u | Main_exits c_int 'u | Main_hangs

text \<open>
  The code this file calls. It acts on its own state (\<open>user\<close>); an initializer that
  does not return (it faults, or loops) is \<open>None\<close>.
\<close>

record 'u env =
  initializer_code :: "fnptr \<Rightarrow> 'u \<Rightarrow> 'u option"
  main_code :: "c_int \<Rightarrow> string list \<Rightarrow> 'u \<Rightarrow> 'u main_outcome"

text \<open>
  What the build fixes: whether \<open>CONFIG_HAVE_CXX\<close> is defined, the address of
  \<open>sig_trampoline\<close>, the six linker symbols and the content of the arrays.
\<close>

record image =
  have_cxx :: bool
  sig_trampoline_addr :: fnptr
  preinit_array_start :: nat
  preinit_array_end :: nat
  init_array_start :: nat
  init_array_end :: nat
  fini_array_start :: nat
  fini_array_end :: nat
  slots :: slot_mem

definition task_of :: "'u ending \<Rightarrow> 'u task" where
  "task_of e = (case e of Terminated t \<Rightarrow> t | Halted h t \<Rightarrow> t)"

definition boot :: "'u \<Rightarrow> 'u task" where
  "boot u = \<lparr>ar_sigtramp = None, atexit_hooks = [], exit_status = None, events = [], user = u\<rparr>"

subsection \<open>The runners\<close>

text \<open>The call \<open>initializer()\<close>: no argument, the result ignored.\<close>

definition invoke :: "'u env \<Rightarrow> phase \<Rightarrow> fnptr \<Rightarrow> 'u task \<Rightarrow> 'u result" where
  "invoke env ph f t =
     (let t1 = t\<lparr>events := events t @ [Invoke ph f]\<rparr>
      in case initializer_code env f (user t) of
           None \<Rightarrow> Inl (No_return, t1)
         | Some u' \<Rightarrow> Inr (t1\<lparr>user := u'\<rparr>))"

text \<open>
  \<^verbatim>\<open>for(preinit = __preinit_array_start; preinit < __preinit_array_end; ++preinit)
    { initializer_t initializer = *preinit; if (initializer) { initializer(); } }\<close>
  The loop variable is the argument \<open>preinit\<close>.
\<close>

function exec_preinit_loop :: "'u env \<Rightarrow> image \<Rightarrow> nat \<Rightarrow> 'u task \<Rightarrow> 'u result" where
  "exec_preinit_loop env img preinit t =
     (if preinit < preinit_array_end img then
        (case slots img preinit of
           None \<Rightarrow> Inl (Fault, t)
         | Some initializer \<Rightarrow>
             if initializer \<noteq> 0 then
               (case invoke env Preinit initializer t of
                  Inl stop \<Rightarrow> Inl stop
                | Inr t' \<Rightarrow> exec_preinit_loop env img (preinit + 1) t')
             else exec_preinit_loop env img (preinit + 1) t)
      else Inr t)"
  by pat_completeness auto
termination
  by (relation "measure (\<lambda>(env, img, p, t). preinit_array_end img - p)") auto

definition exec_preinit :: "'u env \<Rightarrow> image \<Rightarrow> 'u task \<Rightarrow> 'u result" where
  "exec_preinit env img t = exec_preinit_loop env img (preinit_array_start img) t"

function exec_init_loop :: "'u env \<Rightarrow> image \<Rightarrow> nat \<Rightarrow> 'u task \<Rightarrow> 'u result" where
  "exec_init_loop env img init t =
     (if init < init_array_end img then
        (case slots img init of
           None \<Rightarrow> Inl (Fault, t)
         | Some initializer \<Rightarrow>
             if initializer \<noteq> 0 then
               (case invoke env Init initializer t of
                  Inl stop \<Rightarrow> Inl stop
                | Inr t' \<Rightarrow> exec_init_loop env img (init + 1) t')
             else exec_init_loop env img (init + 1) t)
      else Inr t)"
  by pat_completeness auto
termination
  by (relation "measure (\<lambda>(env, img, p, t). init_array_end img - p)") auto

definition exec_init :: "'u env \<Rightarrow> image \<Rightarrow> 'u task \<Rightarrow> 'u result" where
  "exec_init env img t = exec_init_loop env img (init_array_start img) t"

function exec_fini_loop :: "'u env \<Rightarrow> image \<Rightarrow> nat \<Rightarrow> 'u task \<Rightarrow> 'u result" where
  "exec_fini_loop env img fini t =
     (if fini < fini_array_end img then
        (case slots img fini of
           None \<Rightarrow> Inl (Fault, t)
         | Some initializer \<Rightarrow>
             if initializer \<noteq> 0 then
               (case invoke env Fini initializer t of
                  Inl stop \<Rightarrow> Inl stop
                | Inr t' \<Rightarrow> exec_fini_loop env img (fini + 1) t')
             else exec_fini_loop env img (fini + 1) t)
      else Inr t)"
  by pat_completeness auto
termination
  by (relation "measure (\<lambda>(env, img, p, t). fini_array_end img - p)") auto

definition exec_fini :: "'u env \<Rightarrow> image \<Rightarrow> 'u task \<Rightarrow> 'u result" where
  "exec_fini env img t = exec_fini_loop env img (fini_array_start img) t"

declare exec_preinit_loop.simps [simp del]
declare exec_init_loop.simps [simp del]
declare exec_fini_loop.simps [simp del]

subsection \<open>The Runner of the specification\<close>

text \<open>
  The specification describes one operation for the three phases: given a start and an
  end boundary delimiting a contiguous sequence of nullable function references, invoke
  each non-null entry with no arguments, in ascending address order, exactly once per
  entry; an empty range is a no-op and a null entry is skipped. This definition follows
  those words (the slots from the start boundary up to the end boundary, visited in
  ascending order); the three loops above are compared with it.
\<close>

fun run_entries :: "'u env \<Rightarrow> phase \<Rightarrow> slot_mem \<Rightarrow> nat list \<Rightarrow> 'u task \<Rightarrow> 'u result" where
  "run_entries env ph sm [] t = Inr t"
| "run_entries env ph sm (a # as) t =
     (case sm a of
        None \<Rightarrow> Inl (Fault, t)
      | Some f \<Rightarrow>
          if f = 0 then run_entries env ph sm as t
          else (case invoke env ph f t of
                  Inl stop \<Rightarrow> Inl stop
                | Inr t' \<Rightarrow> run_entries env ph sm as t'))"

definition callback_list_executor ::
  "'u env \<Rightarrow> phase \<Rightarrow> slot_mem \<Rightarrow> nat \<Rightarrow> nat \<Rightarrow> 'u task \<Rightarrow> 'u result" where
  "callback_list_executor env ph sm start_boundary end_boundary t =
     run_entries env ph sm [start_boundary..<end_boundary] t"

text \<open>The addresses called by a run, in order, whatever the phase.\<close>

fun invoked :: "event list \<Rightarrow> fnptr list" where
  "invoked [] = []"
| "invoked (Invoke ph f # es) = f # invoked es"
| "invoked (e # es) = invoked es"

text \<open>The arguments of the calls of \<open>exit\<close>, in order.\<close>

fun exit_calls :: "event list \<Rightarrow> c_int list" where
  "exit_calls [] = []"
| "exit_calls (Call_exit s # es) = s # exit_calls es"
| "exit_calls (e # es) = exit_calls es"

fun is_invoke_of :: "phase \<Rightarrow> event \<Rightarrow> bool" where
  "is_invoke_of ph (Invoke ph' f) = (ph = ph')"
| "is_invoke_of ph e = False"

fun is_write_sigtramp :: "event \<Rightarrow> bool" where
  "is_write_sigtramp (Write_sigtramp a) = True"
| "is_write_sigtramp e = False"

fun is_atexit :: "event \<Rightarrow> bool" where
  "is_atexit (Atexit h) = True"
| "is_atexit e = False"

text \<open>The place of an event in the life of a task, for stating the order of a run.\<close>

fun lifecycle_step :: "event \<Rightarrow> nat" where
  "lifecycle_step (Write_sigtramp a) = 0"
| "lifecycle_step (Invoke Preinit f) = 1"
| "lifecycle_step (Invoke Init f) = 2"
| "lifecycle_step (Atexit h) = 3"
| "lifecycle_step (Call_main argc argv) = 4"
| "lifecycle_step (Main_returned r) = 5"
| "lifecycle_step (Call_exit s) = 6"
| "lifecycle_step (Invoke Fini f) = 7"

definition nonnull :: "fnptr list \<Rightarrow> fnptr list" where
  "nonnull arr = filter (\<lambda>f. f \<noteq> 0) arr"

definition result_task :: "'u result \<Rightarrow> 'u task" where
  "result_task r = (case r of Inl (h, t) \<Rightarrow> t | Inr t \<Rightarrow> t)"

text \<open>The addresses a runner has called when it stops, in order.\<close>

definition invocations :: "'u result \<Rightarrow> fnptr list" where
  "invocations r = invoked (events (result_task r))"

text \<open>
  An initializer array with the entries \<open>arr\<close>: they lie in the slots from the start
  boundary on, and the end boundary is the slot after them.
\<close>

definition array_at :: "slot_mem \<Rightarrow> nat \<Rightarrow> nat \<Rightarrow> fnptr list \<Rightarrow> bool" where
  "array_at sm start_boundary end_boundary arr =
     (end_boundary = start_boundary + length arr \<and>
      map sm [start_boundary..<end_boundary] = map Some arr)"

text \<open>
  The state of the called code after the non-null entries of a list have run in order,
  from a given state; \<open>None\<close> when one of them does not return.
\<close>

fun user_after :: "'u env \<Rightarrow> fnptr list \<Rightarrow> 'u \<Rightarrow> 'u option" where
  "user_after env [] u = Some u"
| "user_after env (f # fs) u =
     (if f = 0 then user_after env fs u
      else (case initializer_code env f u of
              None \<Rightarrow> None
            | Some u' \<Rightarrow> user_after env fs u'))"

text \<open>Every initializer of the list returns, whatever the state it is called in.\<close>

definition all_return :: "'u env \<Rightarrow> fnptr list \<Rightarrow> bool" where
  "all_return env fs = (\<forall>f u. f \<in> set fs \<longrightarrow> f \<noteq> 0 \<longrightarrow> initializer_code env f u \<noteq> None)"

subsection \<open>Process exit\<close>

text \<open>
  Modelled from the spec: \<open>atexit\<close> and \<open>exit\<close> are library functions of the
  repository that are not in this file. The specification says that the fini phase is
  registered through the standard run-at-process-exit mechanism, that it then fires
  exactly once whichever way exit is reached, never more than once even under repeated
  exit calls, and that the value passed to the exit path becomes the task's exit status,
  which is determined before the registered functions run. So: \<open>atexit\<close> records the
  function; \<open>exit\<close> fixes the status (one already fixed stays), takes the registered
  functions out of the registry and runs them.
\<close>

definition atexit :: "hook \<Rightarrow> 'u task \<Rightarrow> 'u task" where
  "atexit h t = t\<lparr>atexit_hooks := h # atexit_hooks t, events := events t @ [Atexit h]\<rparr>"

fun run_hooks :: "'u env \<Rightarrow> image \<Rightarrow> hook list \<Rightarrow> 'u task \<Rightarrow> 'u result" where
  "run_hooks env img [] t = Inr t"
| "run_hooks env img (Exec_fini # hs) t =
     (case exec_fini env img t of
        Inl stop \<Rightarrow> Inl stop
      | Inr t' \<Rightarrow> run_hooks env img hs t')"

definition exit :: "'u env \<Rightarrow> image \<Rightarrow> c_int \<Rightarrow> 'u task \<Rightarrow> 'u ending" where
  "exit env img status t =
     (let hs = atexit_hooks t;
          t1 = t\<lparr>events := events t @ [Call_exit status],
                 exit_status := (case exit_status t of None \<Rightarrow> Some status | Some s \<Rightarrow> Some s),
                 atexit_hooks := []\<rparr>
      in case run_hooks env img hs t1 of
           Inl (h, t') \<Rightarrow> Halted h t'
         | Inr t' \<Rightarrow> Terminated t')"

subsection \<open>The entry point\<close>

text \<open>\<^verbatim>\<open>ret = main(argc, argv); exit(ret);\<close>\<close>

definition main_then_exit ::
  "'u env \<Rightarrow> image \<Rightarrow> c_int \<Rightarrow> string list \<Rightarrow> 'u task \<Rightarrow> 'u ending" where
  "main_then_exit env img argc argv t =
     (let t1 = t\<lparr>events := events t @ [Call_main argc argv]\<rparr>
      in case main_code env argc argv (user t1) of
           Main_returns ret u' \<Rightarrow>
             exit env img ret (t1\<lparr>events := events t1 @ [Main_returned ret], user := u'\<rparr>)
         | Main_exits status u' \<Rightarrow> exit env img status (t1\<lparr>user := u'\<rparr>)
         | Main_hangs \<Rightarrow> Halted No_return t1)"

text \<open>
  \<open>__start\<close>. \<open>ARCH_DATA_RESERVE->ar_sigtramp = sig_trampoline\<close>; under
  \<open>CONFIG_HAVE_CXX\<close>: \<open>exec_preinit(); exec_init(); atexit(exec_fini);\<close>; then
  \<open>main\<close> and \<open>exit\<close>.
\<close>

definition start ::
  "'u env \<Rightarrow> image \<Rightarrow> c_int \<Rightarrow> string list \<Rightarrow> 'u task \<Rightarrow> 'u ending" where
  "start env img argc argv t =
     (let t1 = t\<lparr>ar_sigtramp := Some (sig_trampoline_addr img),
                 events := events t @ [Write_sigtramp (sig_trampoline_addr img)]\<rparr>
      in if have_cxx img then
           (case exec_preinit env img t1 of
              Inl (h, t') \<Rightarrow> Halted h t'
            | Inr t2 \<Rightarrow>
                (case exec_init env img t2 of
                   Inl (h, t') \<Rightarrow> Halted h t'
                 | Inr t3 \<Rightarrow> main_then_exit env img argc argv (atexit Exec_fini t3)))
         else main_then_exit env img argc argv t1)"

subsection \<open>The signal trampoline\<close>

text \<open>
  \<open>sig_trampoline\<close> is a naked function: its body is the twelve instructions of the
  \<open>asm\<close> statement and nothing else. They are modelled as data and run by a small
  interpreter of the registers they use. A register holds a word of the machine's
  width (\<open>'a word\<close>); \<open>REGSTORE\<close> and \<open>REGLOAD\<close> move a whole register to and from the memory cell at
  an address. The macros \<open>STACK_FRAME_SIZE\<close> and \<open>SYS_signal_handler_return\<close> are
  defined outside this file and are parameters.
\<close>

datatype reg = RA | SP | T0 | A0 | A1 | A2 | A3

datatype instr =
    ADDI reg reg int       \<comment> \<open>\<open>addi rd, rs, imm\<close>\<close>
  | REGSTORE reg int reg   \<comment> \<open>\<open>REGSTORE rs, imm(base)\<close>\<close>
  | REGLOAD reg int reg    \<comment> \<open>\<open>REGLOAD rd, imm(base)\<close>\<close>
  | MV reg reg             \<comment> \<open>\<open>mv rd, rs\<close>\<close>
  | JALR reg               \<comment> \<open>\<open>jalr rs\<close>: call the code at \<open>rs\<close>, the return address in \<open>ra\<close>\<close>
  | LI reg int             \<comment> \<open>\<open>li rd, imm\<close>\<close>
  | ECALL
  | NOP

record 'w cpu =
  regs :: "reg \<Rightarrow> 'w"
  mem :: "'w \<Rightarrow> 'w"

text \<open>
  What the trampoline asks of others: a call of the code at an address with the
  argument registers \<open>a0\<close>, \<open>a1\<close>, \<open>a2\<close>, and a privileged request (\<open>ecall\<close>) with the
  request number in \<open>a0\<close>.
\<close>

datatype 'w request =
    Handler_call 'w 'w 'w 'w
  | Ecall 'w

datatype stop = Trap | Handler_no_return | End_of_code

text \<open>
  The code at an address, called as a function: the registers and memory on its return,
  or \<open>None\<close> when it does not return.
\<close>

type_synonym 'w code = "'w \<Rightarrow> 'w cpu \<Rightarrow> 'w cpu option"

fun exec_instr :: "instr \<Rightarrow> ('a :: len) word cpu \<Rightarrow> 'a word cpu" where
  "exec_instr (ADDI rd rs imm) c = c\<lparr>regs := (regs c)(rd := regs c rs + word_of_int imm)\<rparr>"
| "exec_instr (REGSTORE rs imm base) c =
     c\<lparr>mem := (mem c)(regs c base + word_of_int imm := regs c rs)\<rparr>"
| "exec_instr (REGLOAD rd imm base) c =
     c\<lparr>regs := (regs c)(rd := mem c (regs c base + word_of_int imm))\<rparr>"
| "exec_instr (MV rd rs) c = c\<lparr>regs := (regs c)(rd := regs c rs)\<rparr>"
| "exec_instr (LI rd imm) c = c\<lparr>regs := (regs c)(rd := word_of_int imm)\<rparr>"
| "exec_instr i c = c"

text \<open>
  Running straight-line code. \<open>ecall\<close> hands the processor to the kernel: the run ends
  there. \<open>jalr\<close> writes the address of the next instruction (\<open>link\<close>) to \<open>ra\<close> and
  runs the called code; the run goes on when that returns.
\<close>

fun run :: "('a :: len) word code \<Rightarrow> 'a word \<Rightarrow> instr list \<Rightarrow> 'a word cpu \<Rightarrow>
    'a word request list \<Rightarrow> stop \<times> 'a word cpu \<times> 'a word request list" where
  "run code link [] c tr = (End_of_code, c, tr)"
| "run code link (ECALL # is) c tr = (Trap, c, tr @ [Ecall (regs c A0)])"
| "run code link (JALR rs # is) c tr =
     (let target = regs c rs;
          tr1 = tr @ [Handler_call target (regs c A0) (regs c A1) (regs c A2)];
          c1 = c\<lparr>regs := (regs c)(RA := link)\<rparr>
      in case code target c1 of
           None \<Rightarrow> (Handler_no_return, c1, tr1)
         | Some c2 \<Rightarrow> run code link is c2 tr1)"
| "run code link (i # is) c tr = run code link is (exec_instr i c) tr"

definition sig_trampoline_code :: "int \<Rightarrow> int \<Rightarrow> instr list" where
  "sig_trampoline_code STACK_FRAME_SIZE SYS_signal_handler_return =
     [ADDI SP SP (- STACK_FRAME_SIZE),
      REGSTORE RA 0 SP,
      MV T0 A0,
      MV A0 A1,
      MV A1 A2,
      MV A2 A3,
      JALR T0,
      REGLOAD RA 0 SP,
      ADDI SP SP STACK_FRAME_SIZE,
      LI A0 SYS_signal_handler_return,
      ECALL,
      NOP]"

definition sig_trampoline ::
  "('a :: len) word code \<Rightarrow> 'a word \<Rightarrow> int \<Rightarrow> int \<Rightarrow> 'a word cpu \<Rightarrow>
     stop \<times> 'a word cpu \<times> 'a word request list" where
  "sig_trampoline code link STACK_FRAME_SIZE SYS_signal_handler_return c =
     run code link (sig_trampoline_code STACK_FRAME_SIZE SYS_signal_handler_return) c []"


subsection \<open>A concrete task\<close>

text \<open>
  A small image and environment on which the definitions can be run. The called code
  keeps a log of the initializers that ran; \<open>main\<close> returns 7. The arrays are those of
  the specification's scenarios: one pre-init entry, the init array \<open>[A, null, B]\<close> and
  the fini array \<open>[C, D]\<close>.
\<close>

definition demo_env :: "fnptr list env" where
  "demo_env = \<lparr>initializer_code = (\<lambda>f u. Some (u @ [f])),
               main_code = (\<lambda>argc argv u. Main_returns 7 u)\<rparr>"

definition demo_image :: image where
  "demo_image =
     \<lparr>have_cxx = True, sig_trampoline_addr = 4096,
      preinit_array_start = 0, preinit_array_end = 1,
      init_array_start = 1, init_array_end = 4,
      fini_array_start = 4, fini_array_end = 6,
      slots = map_of [(0, 11), (1, 21), (2, 0), (3, 22), (4, 31), (5, 32)]\<rparr>"

text \<open>
  A second environment, whose \<open>main\<close> returns the number of initializers that have
  run before it: its result depends on the state it is called in.
\<close>

definition counting_env :: "fnptr list env" where
  "counting_env = \<lparr>initializer_code = (\<lambda>f u. Some (u @ [f])),
                   main_code = (\<lambda>argc argv u. Main_returns (of_nat (length u)) u)\<rparr>"

text \<open>
  A 64-bit machine state at the entry of the trampoline, as the kernel sets it up for
  signal 10 and a handler at \<open>0x2000\<close>, and code for that handler: it overwrites
  argument and temporary registers, stores below the stack pointer it was given, and
  returns. No other address holds code that returns.
\<close>

definition demo_handler :: "64 word code" where
  "demo_handler target c =
     (if target = 0x2000 then
        Some (c\<lparr>regs := (regs c)(A0 := 0, A1 := 1, T0 := 99),
               mem := (mem c)(regs c SP - 8 := regs c A0)\<rparr>)
      else None)"

definition demo_cpu :: "64 word cpu" where
  "demo_cpu =
     \<lparr>regs = (\<lambda>r. 0)(A0 := 0x2000, A1 := 10, A2 := 0x3000, A3 := 0x3100,
               SP := 0x8000, RA := 0x1234),
      mem = (\<lambda>a. 0)\<rparr>"

section \<open>Properties\<close>

subsection \<open>The concrete task, run\<close>

lemma demo_run:
  "start demo_env demo_image 1 [''app''] (boot []) =
     Terminated \<lparr>ar_sigtramp = Some 4096, atexit_hooks = [], exit_status = Some 7,
       events = [Write_sigtramp 4096, Invoke Preinit 11, Invoke Init 21, Invoke Init 22,
         Atexit Exec_fini, Call_main 1 [''app''], Main_returned 7, Call_exit 7,
         Invoke Fini 31, Invoke Fini 32],
       user = [11, 21, 22, 31, 32]\<rparr>"
  by code_simp

lemma demo_run_without_cxx:
  "start demo_env (demo_image\<lparr>have_cxx := False\<rparr>) 1 [''app''] (boot []) =
     Terminated \<lparr>ar_sigtramp = Some 4096, atexit_hooks = [], exit_status = Some 7,
       events = [Write_sigtramp 4096, Call_main 1 [''app''], Main_returned 7, Call_exit 7],
       user = []\<rparr>"
  by code_simp

lemma demo_arrays:
  "array_at (slots demo_image) (preinit_array_start demo_image)
     (preinit_array_end demo_image) [11]"
  "array_at (slots demo_image) (init_array_start demo_image)
     (init_array_end demo_image) [21, 0, 22]"
  "array_at (slots demo_image) (fini_array_start demo_image)
     (fini_array_end demo_image) [31, 32]"
  by code_simp+

lemma demo_all_return: "all_return demo_env fs"
  by (simp add: all_return_def demo_env_def)

lemma demo_main: "main_code demo_env argc argv u = Main_returns 7 u"
  by (simp add: demo_env_def)

subsection \<open>The runners\<close>

lemma preinit_loop_run_entries:
  "exec_preinit_loop env img p t =
     run_entries env Preinit (slots img) [p..<preinit_array_end img] t"
proof (induction env img p t rule: exec_preinit_loop.induct)
  case (1 env img p t)
  show ?case
  proof (cases "p < preinit_array_end img")
    case False
    then show ?thesis by (simp add: exec_preinit_loop.simps [of env img p t])
  next
    case True
    then have u: "[p..<preinit_array_end img] = p # [p + 1..<preinit_array_end img]"
      by (simp add: upt_conv_Cons)
    show ?thesis
      using True "1.IH"
      by (subst exec_preinit_loop.simps, subst u)
         (auto split: option.splits sum.splits)
  qed
qed

lemma init_loop_run_entries:
  "exec_init_loop env img p t =
     run_entries env Init (slots img) [p..<init_array_end img] t"
proof (induction env img p t rule: exec_init_loop.induct)
  case (1 env img p t)
  show ?case
  proof (cases "p < init_array_end img")
    case False
    then show ?thesis by (simp add: exec_init_loop.simps [of env img p t])
  next
    case True
    then have u: "[p..<init_array_end img] = p # [p + 1..<init_array_end img]"
      by (simp add: upt_conv_Cons)
    show ?thesis
      using True "1.IH"
      by (subst exec_init_loop.simps, subst u)
         (auto split: option.splits sum.splits)
  qed
qed

lemma fini_loop_run_entries:
  "exec_fini_loop env img p t =
     run_entries env Fini (slots img) [p..<fini_array_end img] t"
proof (induction env img p t rule: exec_fini_loop.induct)
  case (1 env img p t)
  show ?case
  proof (cases "p < fini_array_end img")
    case False
    then show ?thesis by (simp add: exec_fini_loop.simps [of env img p t])
  next
    case True
    then have u: "[p..<fini_array_end img] = p # [p + 1..<fini_array_end img]"
      by (simp add: upt_conv_Cons)
    show ?thesis
      using True "1.IH"
      by (subst exec_fini_loop.simps, subst u)
         (auto split: option.splits sum.splits)
  qed
qed

lemma exec_preinit_executor:
  "exec_preinit env img t =
     callback_list_executor env Preinit (slots img)
       (preinit_array_start img) (preinit_array_end img) t"
  by (simp add: exec_preinit_def callback_list_executor_def preinit_loop_run_entries)

lemma exec_init_executor:
  "exec_init env img t =
     callback_list_executor env Init (slots img)
       (init_array_start img) (init_array_end img) t"
  by (simp add: exec_init_def callback_list_executor_def init_loop_run_entries)

lemma exec_fini_executor:
  "exec_fini env img t =
     callback_list_executor env Fini (slots img)
       (fini_array_start img) (fini_array_end img) t"
  by (simp add: exec_fini_def callback_list_executor_def fini_loop_run_entries)

text \<open>
  Over an array whose initializers all return, the Runner returns; it has added one
  call for each non-null entry, in the order of the array, and changed nothing else but
  the state of the called code.
\<close>

lemma run_entries_array:
  "map sm as = map Some arr \<Longrightarrow> all_return env arr \<Longrightarrow>
   \<exists>u'. run_entries env ph sm as t =
      Inr (t\<lparr>events := events t @ map (Invoke ph) (nonnull arr), user := u'\<rparr>)"
proof (induction as arbitrary: arr t)
  case Nil
  then show ?case by (intro exI [of _ "user t"]) (simp add: nonnull_def)
next
  case (Cons a as)
  then obtain f fs where arr: "arr = f # fs" and a: "sm a = Some f"
    and m: "map sm as = map Some fs"
    by (cases arr) auto
  have r: "all_return env fs" using Cons.prems(2) arr by (auto simp: all_return_def)
  show ?case
  proof (cases "f = 0")
    case True
    from Cons.IH [OF m r, of t] obtain u' where
      "run_entries env ph sm as t =
        Inr (t\<lparr>events := events t @ map (Invoke ph) (nonnull fs), user := u'\<rparr>)"
      by blast
    with a arr True have "run_entries env ph sm (a # as) t =
        Inr (t\<lparr>events := events t @ map (Invoke ph) (nonnull arr), user := u'\<rparr>)"
      by (simp add: nonnull_def)
    then show ?thesis by blast
  next
    case False
    with Cons.prems(2) arr obtain u1 where u1: "initializer_code env f (user t) = Some u1"
      by (fastforce simp: all_return_def)
    let ?t1 = "t\<lparr>events := events t @ [Invoke ph f], user := u1\<rparr>"
    have i: "invoke env ph f t = Inr ?t1" by (simp add: invoke_def u1)
    from Cons.IH [OF m r, of ?t1] obtain u' where
      "run_entries env ph sm as ?t1 =
        Inr (?t1\<lparr>events := events ?t1 @ map (Invoke ph) (nonnull fs), user := u'\<rparr>)"
      by blast
    with a arr False i have "run_entries env ph sm (a # as) t =
        Inr (t\<lparr>events := events t @ map (Invoke ph) (nonnull arr), user := u'\<rparr>)"
      by (simp add: nonnull_def)
    then show ?thesis by blast
  qed
qed

lemma executor_array:
  "array_at sm s e arr \<Longrightarrow> all_return env arr \<Longrightarrow>
   \<exists>u'. callback_list_executor env ph sm s e t =
      Inr (t\<lparr>events := events t @ map (Invoke ph) (nonnull arr), user := u'\<rparr>)"
  unfolding callback_list_executor_def array_at_def
  by (elim conjE) (rule run_entries_array)

lemma length_nonnull: "length (nonnull arr) = length arr - count_list arr 0"
  by (induction arr) (auto simp: nonnull_def Suc_diff_le count_le_length)

lemma invoked_append: "invoked (xs @ ys) = invoked xs @ invoked ys"
  by (induction xs rule: invoked.induct) simp_all

lemma invoked_map_Invoke: "invoked (map (Invoke ph) fs) = fs"
  by (induction fs) simp_all

text \<open>
  The tag of the phase does not change what a run calls: two runs over the same slots,
  from tasks with the same called-code state, call the same addresses and stop alike.
\<close>

lemma run_entries_any_phase:
  "user t = user t' \<Longrightarrow> invoked (events t) = invoked (events t') \<Longrightarrow>
   invocations (run_entries env ph sm as t) = invocations (run_entries env ph' sm as t') \<and>
   isl (run_entries env ph sm as t) = isl (run_entries env ph' sm as t')"
proof (induction as arbitrary: t t')
  case Nil
  then show ?case by (simp add: invocations_def result_task_def)
next
  case (Cons a as)
  show ?case
  proof (cases "sm a")
    case None
    with Cons.prems show ?thesis by (simp add: invocations_def result_task_def)
  next
    case (Some f)
    show ?thesis
    proof (cases "f = 0")
      case True
      with Some Cons.IH [OF Cons.prems] show ?thesis by simp
    next
      case False
      show ?thesis
      proof (cases "initializer_code env f (user t)")
        case None
        with Some False Cons.prems show ?thesis
          by (simp add: invoke_def invocations_def result_task_def invoked_append)
      next
        case (Some u1)
        let ?t1 = "t\<lparr>events := events t @ [Invoke ph f], user := u1\<rparr>"
        let ?t1' = "t'\<lparr>events := events t' @ [Invoke ph' f], user := u1\<rparr>"
        have "user ?t1 = user ?t1'" by simp
        moreover have "invoked (events ?t1) = invoked (events ?t1')"
          using Cons.prems(2) by (simp add: invoked_append)
        ultimately have "invocations (run_entries env ph sm as ?t1) =
            invocations (run_entries env ph' sm as ?t1') \<and>
          isl (run_entries env ph sm as ?t1) = isl (run_entries env ph' sm as ?t1')"
          by (rule Cons.IH)
        with Some \<open>sm a = Some f\<close> False Cons.prems(1) show ?thesis
          by (simp add: invoke_def)
      qed
    qed
  qed
qed

lemma executor_any_phase:
  "invocations (callback_list_executor env ph sm s e t) =
   invocations (callback_list_executor env ph' sm s e t)"
  unfolding callback_list_executor_def
  using run_entries_any_phase [of t t env ph sm "[s..<e]" ph'] by simp

text \<open>
  Claim C3. For an initializer array of length n with k null entries whose initializers
  return, each of the three runners returns after exactly n - k calls: one call, without
  arguments, for each non-null entry, in the order of the slots (ascending addresses),
  the null entries skipped. The fini runner goes through its array in the same forward
  order.
\<close>

theorem runner_calls_nonnull_entries_in_order:
  assumes "all_return env arr"
  shows "(array_at (slots img) (preinit_array_start img) (preinit_array_end img) arr \<longrightarrow>
            (\<exists>u'. exec_preinit env img t =
               Inr (t\<lparr>events := events t @ map (Invoke Preinit) (nonnull arr), user := u'\<rparr>))) \<and>
         (array_at (slots img) (init_array_start img) (init_array_end img) arr \<longrightarrow>
            (\<exists>u'. exec_init env img t =
               Inr (t\<lparr>events := events t @ map (Invoke Init) (nonnull arr), user := u'\<rparr>))) \<and>
         (array_at (slots img) (fini_array_start img) (fini_array_end img) arr \<longrightarrow>
            (\<exists>u'. exec_fini env img t =
               Inr (t\<lparr>events := events t @ map (Invoke Fini) (nonnull arr), user := u'\<rparr>))) \<and>
         nonnull arr = filter (\<lambda>f. f \<noteq> 0) arr \<and>
         length (nonnull arr) = length arr - count_list arr 0"
  using assms
  by (simp add: exec_preinit_executor exec_init_executor exec_fini_executor
        executor_array length_nonnull) (simp add: nonnull_def)

theorem runner_calls_nonnull_entries_in_order_witness:
  "all_return demo_env [21, 0, 22] \<and>
   array_at (slots demo_image) (init_array_start demo_image) (init_array_end demo_image)
     [21, 0, 22] \<and>
   (\<exists>u'. exec_init demo_env demo_image (boot []) =
      Inr ((boot [])\<lparr>events := [Invoke Init 21, Invoke Init 22], user := u'\<rparr>)) \<and>
   all_return demo_env [31, 32] \<and>
   array_at (slots demo_image) (fini_array_start demo_image) (fini_array_end demo_image)
     [31, 32] \<and>
   (\<exists>u'. exec_fini demo_env demo_image (boot []) =
      Inr ((boot [])\<lparr>events := [Invoke Fini 31, Invoke Fini 32], user := u'\<rparr>)) \<and>
   all_return demo_env [11] \<and>
   array_at (slots demo_image) (preinit_array_start demo_image) (preinit_array_end demo_image)
     [11] \<and>
   (\<exists>u'. exec_preinit demo_env demo_image (boot []) =
      Inr ((boot [])\<lparr>events := [Invoke Preinit 11], user := u'\<rparr>))"
proof -
  have r: "all_return demo_env arr" for arr
    by (simp add: all_return_def demo_env_def)
  have a1: "array_at (slots demo_image) (init_array_start demo_image)
      (init_array_end demo_image) [21, 0, 22]"
    by code_simp
  have a2: "array_at (slots demo_image) (fini_array_start demo_image)
      (fini_array_end demo_image) [31, 32]"
    by code_simp
  have a3: "array_at (slots demo_image) (preinit_array_start demo_image)
      (preinit_array_end demo_image) [11]"
    by code_simp
  have e: "events (boot ([] :: fnptr list)) = []" by (simp add: boot_def)
  show ?thesis
    using r a1 a2 a3
      runner_calls_nonnull_entries_in_order
        [where env = demo_env and arr = "[21, 0, 22]" and img = demo_image and t = "boot []"]
      runner_calls_nonnull_entries_in_order
        [where env = demo_env and arr = "[31, 32]" and img = demo_image and t = "boot []"]
      runner_calls_nonnull_entries_in_order
        [where env = demo_env and arr = "[11]" and img = demo_image and t = "boot []"]
    by (simp add: e nonnull_def)
qed

text \<open>
  Claim C8. A phase whose start boundary equals its end boundary is a no-op: the runner
  returns with the task unchanged, so no initializer is called and there is no fault.
  This holds whatever the memory holds, also when no slot at all can be read: the
  boundary is not dereferenced.
\<close>

theorem empty_phase_is_noop:
  "(preinit_array_start img = preinit_array_end img \<longrightarrow>
      exec_preinit env img t = Inr t \<and> exec_preinit env (img\<lparr>slots := \<lambda>a. None\<rparr>) t = Inr t) \<and>
   (init_array_start img = init_array_end img \<longrightarrow>
      exec_init env img t = Inr t \<and> exec_init env (img\<lparr>slots := \<lambda>a. None\<rparr>) t = Inr t) \<and>
   (fini_array_start img = fini_array_end img \<longrightarrow>
      exec_fini env img t = Inr t \<and> exec_fini env (img\<lparr>slots := \<lambda>a. None\<rparr>) t = Inr t)"
  by (simp add: exec_preinit_def exec_init_def exec_fini_def
        exec_preinit_loop.simps exec_init_loop.simps exec_fini_loop.simps)

theorem empty_phase_is_noop_witness:
  "exec_preinit demo_env (demo_image\<lparr>preinit_array_start := 1\<rparr>) (boot []) = Inr (boot []) \<and>
   exec_init demo_env (demo_image\<lparr>init_array_start := 4, slots := \<lambda>a. None\<rparr>) (boot []) =
     Inr (boot []) \<and>
   exec_fini demo_env (demo_image\<lparr>fini_array_end := 4, slots := \<lambda>a. None\<rparr>) (boot []) =
     Inr (boot [])"
  using empty_phase_is_noop [of "demo_image\<lparr>preinit_array_start := 1\<rparr>" demo_env "boot []"]
    empty_phase_is_noop [of "demo_image\<lparr>init_array_start := 4\<rparr>" demo_env "boot []"]
    empty_phase_is_noop [of "demo_image\<lparr>fini_array_end := 4\<rparr>" demo_env "boot []"]
  by (simp add: demo_image_def)

text \<open>
  Claim C9. Each of the three runners is the generic executor of the specification
  applied to its own pair of boundaries. Given the same pair of boundaries, the three
  call the same addresses in the same order.
\<close>

theorem runners_are_the_generic_executor:
  "exec_preinit env img t =
     callback_list_executor env Preinit (slots img)
       (preinit_array_start img) (preinit_array_end img) t \<and>
   exec_init env img t =
     callback_list_executor env Init (slots img)
       (init_array_start img) (init_array_end img) t \<and>
   exec_fini env img t =
     callback_list_executor env Fini (slots img)
       (fini_array_start img) (fini_array_end img) t \<and>
   invocations (exec_preinit env (img\<lparr>preinit_array_start := s, preinit_array_end := e\<rparr>) t) =
     invocations (exec_init env (img\<lparr>init_array_start := s, init_array_end := e\<rparr>) t) \<and>
   invocations (exec_init env (img\<lparr>init_array_start := s, init_array_end := e\<rparr>) t) =
     invocations (exec_fini env (img\<lparr>fini_array_start := s, fini_array_end := e\<rparr>) t)"
proof -
  have "invocations (callback_list_executor env Preinit (slots img) s e t) =
      invocations (callback_list_executor env Init (slots img) s e t)"
    by (rule executor_any_phase)
  moreover have "invocations (callback_list_executor env Init (slots img) s e t) =
      invocations (callback_list_executor env Fini (slots img) s e t)"
    by (rule executor_any_phase)
  ultimately show ?thesis
    by (simp add: exec_preinit_executor exec_init_executor exec_fini_executor)
qed

subsection \<open>What a run can add to a task\<close>

lemma run_entries_frame:
  "\<exists>fs u'. result_task (run_entries env ph sm as t) =
      t\<lparr>events := events t @ map (Invoke ph) fs, user := u'\<rparr>"
proof (induction as arbitrary: t)
  case Nil
  have "result_task (run_entries env ph sm [] t) =
      t\<lparr>events := events t @ map (Invoke ph) [], user := user t\<rparr>"
    by (simp add: result_task_def)
  then show ?case by blast
next
  case (Cons a as)
  show ?case
  proof (cases "sm a")
    case None
    then have "result_task (run_entries env ph sm (a # as) t) =
        t\<lparr>events := events t @ map (Invoke ph) [], user := user t\<rparr>"
      by (simp add: result_task_def)
    then show ?thesis by blast
  next
    case (Some f)
    show ?thesis
    proof (cases "f = 0")
      case True
      with Some Cons.IH [of t] show ?thesis by simp
    next
      case False
      show ?thesis
      proof (cases "initializer_code env f (user t)")
        case None
        with Some False have "result_task (run_entries env ph sm (a # as) t) =
            t\<lparr>events := events t @ map (Invoke ph) [f], user := user t\<rparr>"
          by (simp add: result_task_def invoke_def)
        then show ?thesis by blast
      next
        case (Some u1)
        let ?t1 = "t\<lparr>events := events t @ [Invoke ph f], user := u1\<rparr>"
        from Cons.IH [of ?t1] obtain fs u' where
          "result_task (run_entries env ph sm as ?t1) =
             ?t1\<lparr>events := events ?t1 @ map (Invoke ph) fs, user := u'\<rparr>"
          by blast
        with Some \<open>sm a = Some f\<close> False
        have "result_task (run_entries env ph sm (a # as) t) =
            t\<lparr>events := events t @ map (Invoke ph) (f # fs), user := u'\<rparr>"
          by (simp add: invoke_def)
        then show ?thesis by blast
      qed
    qed
  qed
qed

lemma exec_preinit_frame:
  "\<exists>fs u'. result_task (exec_preinit env img t) =
      t\<lparr>events := events t @ map (Invoke Preinit) fs, user := u'\<rparr>"
  by (simp add: exec_preinit_executor callback_list_executor_def run_entries_frame)

lemma exec_init_frame:
  "\<exists>fs u'. result_task (exec_init env img t) =
      t\<lparr>events := events t @ map (Invoke Init) fs, user := u'\<rparr>"
  by (simp add: exec_init_executor callback_list_executor_def run_entries_frame)

lemma exec_fini_frame:
  "\<exists>fs u'. result_task (exec_fini env img t) =
      t\<lparr>events := events t @ map (Invoke Fini) fs, user := u'\<rparr>"
  by (simp add: exec_fini_executor callback_list_executor_def run_entries_frame)

lemma exit_frame:
  assumes "atexit_hooks t = [] \<or> atexit_hooks t = [Exec_fini]"
  shows "\<exists>fs u'. task_of (exit env img status t) =
      t\<lparr>events := events t @ Call_exit status # map (Invoke Fini) fs,
        exit_status := (case exit_status t of None \<Rightarrow> Some status | Some s \<Rightarrow> Some s),
        atexit_hooks := [], user := u'\<rparr>"
proof -
  let ?t1 = "t\<lparr>events := events t @ [Call_exit status],
      exit_status := (case exit_status t of None \<Rightarrow> Some status | Some s \<Rightarrow> Some s),
      atexit_hooks := []\<rparr>"
  from assms show ?thesis
  proof
    assume "atexit_hooks t = []"
    then have "task_of (exit env img status t) =
        ?t1\<lparr>events := events t @ Call_exit status # map (Invoke Fini) [], user := user t\<rparr>"
      by (simp add: exit_def task_of_def)
    then show ?thesis by (intro exI [of _ "[]"] exI [of _ "user t"]) simp
  next
    assume h: "atexit_hooks t = [Exec_fini]"
    obtain fs u' where f: "result_task (exec_fini env img ?t1) =
        ?t1\<lparr>events := events ?t1 @ map (Invoke Fini) fs, user := u'\<rparr>"
      using exec_fini_frame [of env img ?t1] by blast
    have "task_of (exit env img status t) = result_task (exec_fini env img ?t1)"
      using h by (simp add: exit_def task_of_def result_task_def Let_def split: sum.splits prod.splits)
    with f show ?thesis by (intro exI [of _ fs] exI [of _ u']) simp
  qed
qed


lemma exit_no_hooks:
  "atexit_hooks t = [] \<Longrightarrow>
   exit env img status t =
     Terminated (t\<lparr>events := events t @ [Call_exit status],
       exit_status := (case exit_status t of None \<Rightarrow> Some status | Some s \<Rightarrow> Some s),
       atexit_hooks := []\<rparr>)"
  by (simp add: exit_def)

lemma main_then_exit_cases:
  assumes "atexit_hooks t = [] \<or> atexit_hooks t = [Exec_fini]"
    and "exit_status t = None"
  obtains (hangs)
      "main_then_exit env img argc argv t =
         Halted No_return (t\<lparr>events := events t @ [Call_main argc argv]\<rparr>)"
    | (returns) r fs u' where
      "task_of (main_then_exit env img argc argv t) =
         t\<lparr>events := events t @
              [Call_main argc argv, Main_returned r, Call_exit r] @ map (Invoke Fini) fs,
           exit_status := Some r, atexit_hooks := [], user := u'\<rparr>"
      "atexit_hooks t = [] \<Longrightarrow> fs = []"
    | (exits) s fs u' where
      "task_of (main_then_exit env img argc argv t) =
         t\<lparr>events := events t @ [Call_main argc argv, Call_exit s] @ map (Invoke Fini) fs,
           exit_status := Some s, atexit_hooks := [], user := u'\<rparr>"
      "atexit_hooks t = [] \<Longrightarrow> fs = []"
proof (cases "main_code env argc argv (user t)")
  case Main_hangs
  then show ?thesis by (intro hangs) (simp add: main_then_exit_def)
next
  case (Main_returns r u1)
  let ?t2 = "t\<lparr>events := events t @ [Call_main argc argv, Main_returned r], user := u1\<rparr>"
  have m: "main_then_exit env img argc argv t = exit env img r ?t2"
    using Main_returns by (simp add: main_then_exit_def)
  show ?thesis
  proof (cases "atexit_hooks t = []")
    case True
    then have "task_of (main_then_exit env img argc argv t) =
         t\<lparr>events := events t @
              [Call_main argc argv, Main_returned r, Call_exit r] @ map (Invoke Fini) [],
           exit_status := Some r, atexit_hooks := [], user := u1\<rparr>"
      using assms(2) by (simp add: m exit_no_hooks task_of_def)
    then show ?thesis by (rule returns) simp
  next
    case False
    have "atexit_hooks ?t2 = [] \<or> atexit_hooks ?t2 = [Exec_fini]" using assms(1) by simp
    from exit_frame [OF this, of env img r] obtain fs u' where
      "task_of (exit env img r ?t2) =
        ?t2\<lparr>events := events ?t2 @ Call_exit r # map (Invoke Fini) fs,
          exit_status := (case exit_status ?t2 of None \<Rightarrow> Some r | Some s \<Rightarrow> Some s),
          atexit_hooks := [], user := u'\<rparr>"
      by blast
    then have "task_of (main_then_exit env img argc argv t) =
         t\<lparr>events := events t @
              [Call_main argc argv, Main_returned r, Call_exit r] @ map (Invoke Fini) fs,
           exit_status := Some r, atexit_hooks := [], user := u'\<rparr>"
      using assms(2) by (simp add: m)
    then show ?thesis by (rule returns) (use False in simp)
  qed
next
  case (Main_exits s u1)
  let ?t2 = "t\<lparr>events := events t @ [Call_main argc argv], user := u1\<rparr>"
  have m: "main_then_exit env img argc argv t = exit env img s ?t2"
    using Main_exits by (simp add: main_then_exit_def)
  show ?thesis
  proof (cases "atexit_hooks t = []")
    case True
    then have "task_of (main_then_exit env img argc argv t) =
         t\<lparr>events := events t @ [Call_main argc argv, Call_exit s] @ map (Invoke Fini) [],
           exit_status := Some s, atexit_hooks := [], user := u1\<rparr>"
      using assms(2) by (simp add: m exit_no_hooks task_of_def)
    then show ?thesis by (rule exits) simp
  next
    case False
    have "atexit_hooks ?t2 = [] \<or> atexit_hooks ?t2 = [Exec_fini]" using assms(1) by simp
    from exit_frame [OF this, of env img s] obtain fs u' where
      "task_of (exit env img s ?t2) =
        ?t2\<lparr>events := events ?t2 @ Call_exit s # map (Invoke Fini) fs,
          exit_status := (case exit_status ?t2 of None \<Rightarrow> Some s | Some s' \<Rightarrow> Some s'),
          atexit_hooks := [], user := u'\<rparr>"
      by blast
    then have "task_of (main_then_exit env img argc argv t) =
         t\<lparr>events := events t @ [Call_main argc argv, Call_exit s] @ map (Invoke Fini) fs,
           exit_status := Some s, atexit_hooks := [], user := u'\<rparr>"
      using assms(2) by (simp add: m)
    then show ?thesis by (rule exits) (use False in simp)
  qed
qed

lemma start_cases:
  fixes t :: "'u task"
  defines "a \<equiv> \<lambda>img. sig_trampoline_addr img"
  obtains (no_cxx)
      "\<not> have_cxx img"
      "start env img argc argv t =
         main_then_exit env img argc argv
           (t\<lparr>ar_sigtramp := Some (a img), events := events t @ [Write_sigtramp (a img)]\<rparr>)"
    | (preinit_stops) h pre u' where
      "have_cxx img"
      "start env img argc argv t =
         Halted h (t\<lparr>ar_sigtramp := Some (a img),
           events := events t @ Write_sigtramp (a img) # map (Invoke Preinit) pre, user := u'\<rparr>)"
    | (init_stops) h pre ini u' where
      "have_cxx img"
      "start env img argc argv t =
         Halted h (t\<lparr>ar_sigtramp := Some (a img),
           events := events t @ Write_sigtramp (a img) # map (Invoke Preinit) pre @
             map (Invoke Init) ini, user := u'\<rparr>)"
    | (reaches_main) pre ini u' where
      "have_cxx img"
      "start env img argc argv t =
         main_then_exit env img argc argv
           (t\<lparr>ar_sigtramp := Some (a img), atexit_hooks := Exec_fini # atexit_hooks t,
             events := events t @ Write_sigtramp (a img) # map (Invoke Preinit) pre @
               map (Invoke Init) ini @ [Atexit Exec_fini], user := u'\<rparr>)"
proof (cases "have_cxx img")
  case False
  then show ?thesis by (intro no_cxx) (simp_all add: start_def a_def)
next
  case True
  let ?t1 = "t\<lparr>ar_sigtramp := Some (a img), events := events t @ [Write_sigtramp (a img)]\<rparr>"
  obtain pre u1 where p: "result_task (exec_preinit env img ?t1) =
      ?t1\<lparr>events := events ?t1 @ map (Invoke Preinit) pre, user := u1\<rparr>"
    using exec_preinit_frame [of env img ?t1] by blast
  show ?thesis
  proof (cases "exec_preinit env img ?t1")
    case (Inl x)
    then obtain h t' where e: "exec_preinit env img ?t1 = Inl (h, t')" by (cases x) auto
    with p have "start env img argc argv t =
         Halted h (t\<lparr>ar_sigtramp := Some (a img),
           events := events t @ Write_sigtramp (a img) # map (Invoke Preinit) pre, user := u1\<rparr>)"
      using True by (simp add: start_def a_def result_task_def)
    with True show ?thesis by (rule preinit_stops)
  next
    case (Inr t2)
    with p have t2: "t2 = ?t1\<lparr>events := events ?t1 @ map (Invoke Preinit) pre, user := u1\<rparr>"
      by (simp add: result_task_def)
    obtain ini u2 where i: "result_task (exec_init env img t2) =
        t2\<lparr>events := events t2 @ map (Invoke Init) ini, user := u2\<rparr>"
      using exec_init_frame [of env img t2] by blast
    show ?thesis
    proof (cases "exec_init env img t2")
      case (Inl x)
      then obtain h t' where e: "exec_init env img t2 = Inl (h, t')" by (cases x) auto
      with i have t': "t' = t2\<lparr>events := events t2 @ map (Invoke Init) ini, user := u2\<rparr>"
        by (simp add: result_task_def)
      have "start env img argc argv t = Halted h t'"
        using True \<open>exec_preinit env img ?t1 = Inr t2\<close> e by (simp add: start_def a_def)
      then have "start env img argc argv t =
         Halted h (t\<lparr>ar_sigtramp := Some (a img),
           events := events t @ Write_sigtramp (a img) # map (Invoke Preinit) pre @
             map (Invoke Init) ini, user := u2\<rparr>)"
        by (simp add: t' t2)
      with True show ?thesis by (rule init_stops)
    next
      case (Inr t3)
      with i have t3: "t3 = t2\<lparr>events := events t2 @ map (Invoke Init) ini, user := u2\<rparr>"
        by (simp add: result_task_def)
      have "start env img argc argv t =
          main_then_exit env img argc argv (atexit Exec_fini t3)"
        using True \<open>exec_preinit env img ?t1 = Inr t2\<close> Inr by (simp add: start_def a_def)
      moreover have "atexit Exec_fini t3 =
           t\<lparr>ar_sigtramp := Some (a img), atexit_hooks := Exec_fini # atexit_hooks t,
             events := events t @ Write_sigtramp (a img) # map (Invoke Preinit) pre @
               map (Invoke Init) ini @ [Atexit Exec_fini], user := u2\<rparr>"
        by (simp add: t3 t2 atexit_def)
      ultimately have "start env img argc argv t =
         main_then_exit env img argc argv
           (t\<lparr>ar_sigtramp := Some (a img), atexit_hooks := Exec_fini # atexit_hooks t,
             events := events t @ Write_sigtramp (a img) # map (Invoke Preinit) pre @
               map (Invoke Init) ini @ [Atexit Exec_fini], user := u2\<rparr>)"
        by (simp only:)
      with True show ?thesis by (rule reaches_main)
    qed
  qed
qed

lemma exit_calls_append: "exit_calls (xs @ ys) = exit_calls xs @ exit_calls ys"
  by (induction xs rule: exit_calls.induct) simp_all

lemma exit_calls_map_Invoke: "exit_calls (map (Invoke ph) fs) = []"
  by (induction fs) simp_all

lemma filter_write_map_Invoke: "filter is_write_sigtramp (map (Invoke ph) fs) = []"
  by (induction fs) simp_all

lemma filter_atexit_map_Invoke: "filter is_atexit (map (Invoke ph) fs) = []"
  by (induction fs) simp_all

lemma filter_phase_map_Invoke:
  "filter (is_invoke_of ph) (map (Invoke ph') fs) = (if ph = ph' then map (Invoke ph') fs else [])"
  by (induction fs) simp_all

lemma boot_simps:
  "ar_sigtramp (boot u) = None" "atexit_hooks (boot u) = []" "exit_status (boot u) = None"
  "events (boot u) = []" "user (boot u) = u"
  by (simp_all add: boot_def)

text \<open>
  Claim C4. Whatever the initializers and \<open>main\<close> do, the first thing a task does is
  the write of the address of \<open>sig_trampoline\<close> to the trampoline-address field of
  the reserved area; nothing after it in the run (the runners, the registration,
  \<open>main\<close>'s call, the exit path) writes the field again, and at the end the field
  still holds that address. A run either stops before \<open>main\<close> is called, or
  \<open>main\<close> is entered in a state whose field holds the address. So the field holds
  the address before \<open>main\<close> runs and is written exactly once.
\<close>

theorem sigtramp_field_written_once_first:
  "ar_sigtramp (task_of (start env img argc argv (boot u))) = Some (sig_trampoline_addr img) \<and>
   (\<exists>rest. events (task_of (start env img argc argv (boot u))) =
        Write_sigtramp (sig_trampoline_addr img) # rest \<and>
      filter is_write_sigtramp rest = []) \<and>
   ((\<exists>h t'. start env img argc argv (boot u) = Halted h t' \<and>
        Call_main argc argv \<notin> set (events t')) \<or>
    (\<exists>t1. ar_sigtramp t1 = Some (sig_trampoline_addr img) \<and>
        start env img argc argv (boot u) = main_then_exit env img argc argv t1))"
proof (cases rule: start_cases [of img env argc argv "boot u"])
  case no_cxx
  let ?t1 = "(boot u)\<lparr>ar_sigtramp := Some (sig_trampoline_addr img),
      events := events (boot u) @ [Write_sigtramp (sig_trampoline_addr img)]\<rparr>"
  have h: "atexit_hooks ?t1 = [] \<or> atexit_hooks ?t1 = [Exec_fini]" "exit_status ?t1 = None"
    by (simp_all add: boot_simps)
  have "ar_sigtramp ?t1 = Some (sig_trampoline_addr img) \<and>
      start env img argc argv (boot u) = main_then_exit env img argc argv ?t1"
    using no_cxx by simp
  then have m: "\<exists>t1. ar_sigtramp t1 = Some (sig_trampoline_addr img) \<and>
      start env img argc argv (boot u) = main_then_exit env img argc argv t1"
    by blast
  have "ar_sigtramp (task_of (start env img argc argv (boot u))) =
        Some (sig_trampoline_addr img) \<and>
      (\<exists>rest. events (task_of (start env img argc argv (boot u))) =
          Write_sigtramp (sig_trampoline_addr img) # rest \<and>
        filter is_write_sigtramp rest = [])"
    by (cases rule: main_then_exit_cases [OF h, of env img argc argv])
      (simp_all add: no_cxx task_of_def boot_simps filter_write_map_Invoke)
  with m show ?thesis by blast
next
  case (preinit_stops h pre u')
  then show ?thesis by (simp add: task_of_def boot_simps filter_write_map_Invoke) auto
next
  case (init_stops h pre ini u')
  then show ?thesis by (simp add: task_of_def boot_simps filter_write_map_Invoke) auto
next
  case (reaches_main pre ini u')
  let ?t1 = "(boot u)\<lparr>ar_sigtramp := Some (sig_trampoline_addr img),
      atexit_hooks := Exec_fini # atexit_hooks (boot u),
      events := events (boot u) @ Write_sigtramp (sig_trampoline_addr img) #
        map (Invoke Preinit) pre @ map (Invoke Init) ini @ [Atexit Exec_fini], user := u'\<rparr>"
  have h: "atexit_hooks ?t1 = [] \<or> atexit_hooks ?t1 = [Exec_fini]" "exit_status ?t1 = None"
    by (simp_all add: boot_simps)
  have "ar_sigtramp ?t1 = Some (sig_trampoline_addr img) \<and>
      start env img argc argv (boot u) = main_then_exit env img argc argv ?t1"
    using reaches_main by simp
  then have m: "\<exists>t1. ar_sigtramp t1 = Some (sig_trampoline_addr img) \<and>
      start env img argc argv (boot u) = main_then_exit env img argc argv t1"
    by blast
  have "ar_sigtramp (task_of (start env img argc argv (boot u))) =
        Some (sig_trampoline_addr img) \<and>
      (\<exists>rest. events (task_of (start env img argc argv (boot u))) =
          Write_sigtramp (sig_trampoline_addr img) # rest \<and>
        filter is_write_sigtramp rest = [])"
    by (cases rule: main_then_exit_cases [OF h, of env img argc argv])
      (simp_all add: reaches_main task_of_def boot_simps filter_write_map_Invoke)
  with m show ?thesis by blast
qed

lemma Main_returned_notin_Invoke [simp]: "Main_returned r \<notin> Invoke ph ` A"
  by auto

subsection \<open>The state in which main is entered\<close>

lemma user_after_append:
  "user_after env (xs @ ys) u =
     (case user_after env xs u of None \<Rightarrow> None | Some u1 \<Rightarrow> user_after env ys u1)"
  by (induction xs arbitrary: u) (auto split: option.splits)

lemma run_entries_user_after:
  "map sm as = map Some arr \<Longrightarrow> user_after env arr (user t) = Some u' \<Longrightarrow>
   run_entries env ph sm as t =
      Inr (t\<lparr>events := events t @ map (Invoke ph) (nonnull arr), user := u'\<rparr>)"
proof (induction as arbitrary: arr t)
  case Nil
  then show ?case by (simp add: nonnull_def)
next
  case (Cons a as)
  then obtain f fs where arr: "arr = f # fs" and a: "sm a = Some f"
    and m: "map sm as = map Some fs"
    by (cases arr) auto
  show ?case
  proof (cases "f = 0")
    case True
    with Cons.prems(2) arr have "user_after env fs (user t) = Some u'" by simp
    from Cons.IH [OF m this] a arr True show ?thesis by (simp add: nonnull_def)
  next
    case False
    with Cons.prems(2) arr obtain u1 where
      u1: "initializer_code env f (user t) = Some u1" and r: "user_after env fs u1 = Some u'"
      by (auto split: option.splits)
    let ?t1 = "t\<lparr>events := events t @ [Invoke ph f], user := u1\<rparr>"
    have i: "invoke env ph f t = Inr ?t1" by (simp add: invoke_def u1)
    have "user_after env fs (user ?t1) = Some u'" using r by simp
    from Cons.IH [OF m this] a arr False i show ?thesis by (simp add: nonnull_def)
  qed
qed

lemma executor_user_after:
  "array_at sm s e arr \<Longrightarrow> user_after env arr (user t) = Some u' \<Longrightarrow>
   callback_list_executor env ph sm s e t =
      Inr (t\<lparr>events := events t @ map (Invoke ph) (nonnull arr), user := u'\<rparr>)"
  unfolding callback_list_executor_def array_at_def
  by (elim conjE) (rule run_entries_user_after)

lemma start_enters_main:
  assumes cxx: "have_cxx img"
    and pre: "array_at (slots img) (preinit_array_start img) (preinit_array_end img) pre"
    and ini: "array_at (slots img) (init_array_start img) (init_array_end img) ini"
    and ret: "user_after env (pre @ ini) (user t) = Some u1"
  shows "start env img argc argv t =
     main_then_exit env img argc argv
       (t\<lparr>ar_sigtramp := Some (sig_trampoline_addr img),
          atexit_hooks := Exec_fini # atexit_hooks t,
          events := events t @ Write_sigtramp (sig_trampoline_addr img) #
            map (Invoke Preinit) (nonnull pre) @ map (Invoke Init) (nonnull ini) @
            [Atexit Exec_fini],
          user := u1\<rparr>)"
proof -
  let ?t1 = "t\<lparr>ar_sigtramp := Some (sig_trampoline_addr img),
      events := events t @ [Write_sigtramp (sig_trampoline_addr img)]\<rparr>"
  from ret obtain u0 where r1: "user_after env pre (user ?t1) = Some u0"
    and r2: "user_after env ini u0 = Some u1"
    by (auto simp: user_after_append split: option.splits)
  have p: "exec_preinit env img ?t1 =
      Inr (?t1\<lparr>events := events ?t1 @ map (Invoke Preinit) (nonnull pre), user := u0\<rparr>)"
    using executor_user_after [OF pre r1, of Preinit] by (simp add: exec_preinit_executor)
  let ?t2 = "?t1\<lparr>events := events ?t1 @ map (Invoke Preinit) (nonnull pre), user := u0\<rparr>"
  have "user_after env ini (user ?t2) = Some u1" using r2 by simp
  from executor_user_after [OF ini this, of Init]
  have i: "exec_init env img ?t2 =
      Inr (?t2\<lparr>events := events ?t2 @ map (Invoke Init) (nonnull ini), user := u1\<rparr>)"
    by (simp add: exec_init_executor)
  show ?thesis
    using cxx p i by (cases t) (simp add: start_def atexit_def)
qed

lemma counting_run:
  "exec_preinit counting_env demo_image
     ((boot [])\<lparr>ar_sigtramp := Some (sig_trampoline_addr demo_image),
        events := [Write_sigtramp (sig_trampoline_addr demo_image)]\<rparr>) =
     Inr \<lparr>ar_sigtramp = Some 4096, atexit_hooks = [], exit_status = None,
       events = [Write_sigtramp 4096, Invoke Preinit 11], user = [11]\<rparr>"
  "exec_init counting_env demo_image
     \<lparr>ar_sigtramp = Some 4096, atexit_hooks = [], exit_status = None,
       events = [Write_sigtramp 4096, Invoke Preinit 11], user = [11]\<rparr> =
     Inr \<lparr>ar_sigtramp = Some 4096, atexit_hooks = [], exit_status = None,
       events = [Write_sigtramp 4096, Invoke Preinit 11, Invoke Init 21, Invoke Init 22],
       user = [11, 21, 22]\<rparr>"
  "main_code counting_env 1 [''app''] [11, 21, 22] = Main_returns 3 [11, 21, 22]"
  "main_code counting_env 1 [''app''] [] = Main_returns 0 []"
  "user_after counting_env ([11] @ [21, 0, 22]) [] = Some [11, 21, 22]"
  by code_simp+

lemma counting_start:
  "start counting_env demo_image 1 [''app''] (boot []) =
     Terminated \<lparr>ar_sigtramp = Some 4096, atexit_hooks = [], exit_status = Some 3,
       events = [Write_sigtramp 4096, Invoke Preinit 11, Invoke Init 21, Invoke Init 22,
         Atexit Exec_fini, Call_main 1 [''app''], Main_returned 3, Call_exit 3,
         Invoke Fini 31, Invoke Fini 32],
       user = [11, 21, 22, 31, 32]\<rparr>"
  by code_simp

text \<open>
  Claim C5. The value \<open>main\<close> returns is the value \<open>exit\<close> is called with and the
  exit status of the task. Without \<open>CONFIG_HAVE_CXX\<close>: when \<open>main\<close>, called in the
  initial state, returns \<open>r\<close>, the task ends with status \<open>r\<close> after exactly the
  write, the call of \<open>main\<close>, its return and \<open>exit(r)\<close>. With it: when the two
  initializer phases return and \<open>main\<close>, called in the state they leave, returns
  \<open>r\<close>, the next step is \<open>exit(r)\<close>, \<open>exit\<close> is called with no other value, and
  the status is \<open>r\<close>.
\<close>

theorem exit_status_is_mains_return_value:
  "(\<not> have_cxx img \<longrightarrow> main_code env argc argv u = Main_returns r u' \<longrightarrow>
      start env img argc argv (boot u) =
        Terminated \<lparr>ar_sigtramp = Some (sig_trampoline_addr img), atexit_hooks = [],
          exit_status = Some r,
          events = [Write_sigtramp (sig_trampoline_addr img), Call_main argc argv,
                    Main_returned r, Call_exit r],
          user = u'\<rparr>) \<and>
   (have_cxx img \<longrightarrow>
    exec_preinit env img
      ((boot u)\<lparr>ar_sigtramp := Some (sig_trampoline_addr img),
         events := [Write_sigtramp (sig_trampoline_addr img)]\<rparr>) = Inr tp \<longrightarrow>
    exec_init env img tp = Inr ti \<longrightarrow>
    main_code env argc argv (user ti) = Main_returns r u' \<longrightarrow>
      exit_status (task_of (start env img argc argv (boot u))) = Some r \<and>
      exit_calls (events (task_of (start env img argc argv (boot u)))) = [r] \<and>
      (\<exists>fs. events (task_of (start env img argc argv (boot u))) =
         events ti @ [Atexit Exec_fini, Call_main argc argv, Main_returned r, Call_exit r] @
         map (Invoke Fini) fs))"
proof (intro conjI impI)
  assume "\<not> have_cxx img" and "main_code env argc argv u = Main_returns r u'"
  then show "start env img argc argv (boot u) =
        Terminated \<lparr>ar_sigtramp = Some (sig_trampoline_addr img), atexit_hooks = [],
          exit_status = Some r,
          events = [Write_sigtramp (sig_trampoline_addr img), Call_main argc argv,
                    Main_returned r, Call_exit r],
          user = u'\<rparr>"
    by (simp add: start_def main_then_exit_def exit_no_hooks boot_def)
next
  let ?t1 = "(boot u)\<lparr>ar_sigtramp := Some (sig_trampoline_addr img),
         events := [Write_sigtramp (sig_trampoline_addr img)]\<rparr>"
  assume cxx: "have_cxx img"
    and p: "exec_preinit env img ?t1 = Inr tp"
    and i: "exec_init env img tp = Inr ti"
    and m: "main_code env argc argv (user ti) = Main_returns r u'"
  obtain pre u2 where tp: "tp = ?t1\<lparr>events := events ?t1 @ map (Invoke Preinit) pre, user := u2\<rparr>"
    using exec_preinit_frame [of env img ?t1] p by (auto simp: result_task_def)
  obtain ini u3 where ti: "ti = tp\<lparr>events := events tp @ map (Invoke Init) ini, user := u3\<rparr>"
    using exec_init_frame [of env img tp] i by (auto simp: result_task_def)
  let ?t4 = "ti\<lparr>atexit_hooks := [Exec_fini],
      events := events ti @ [Atexit Exec_fini, Call_main argc argv, Main_returned r],
      user := u'\<rparr>"
  have hi: "atexit_hooks ti = []" "exit_status ti = None"
    by (simp_all add: ti tp boot_simps)
  have s: "start env img argc argv (boot u) = exit env img r ?t4"
    using cxx p i m hi
    by (simp add: start_def main_then_exit_def atexit_def boot_simps)
  have "atexit_hooks ?t4 = [] \<or> atexit_hooks ?t4 = [Exec_fini]" by simp
  from exit_frame [OF this, of env img r] obtain fs u4 where
    x: "task_of (exit env img r ?t4) =
      ?t4\<lparr>events := events ?t4 @ Call_exit r # map (Invoke Fini) fs,
        exit_status := (case exit_status ?t4 of None \<Rightarrow> Some r | Some s \<Rightarrow> Some s),
        atexit_hooks := [], user := u4\<rparr>"
    by blast
  have ev: "events (task_of (start env img argc argv (boot u))) =
      events ti @ [Atexit Exec_fini, Call_main argc argv, Main_returned r, Call_exit r] @
      map (Invoke Fini) fs"
    by (simp add: s x)
  show "exit_status (task_of (start env img argc argv (boot u))) = Some r"
    by (simp add: s x hi)
  show "exit_calls (events (task_of (start env img argc argv (boot u)))) = [r]"
    by (simp add: ev ti tp exit_calls_append exit_calls_map_Invoke)
  show "\<exists>fs. events (task_of (start env img argc argv (boot u))) =
         events ti @ [Atexit Exec_fini, Call_main argc argv, Main_returned r, Call_exit r] @
         map (Invoke Fini) fs"
    using ev by blast
qed

theorem exit_status_is_mains_return_value_witness:
  "have_cxx demo_image \<and>
   main_code counting_env 1 [''app''] [11, 21, 22] = Main_returns 3 [11, 21, 22] \<and>
   exit_status (task_of (start counting_env demo_image 1 [''app''] (boot []))) = Some 3 \<and>
   exit_calls (events (task_of (start counting_env demo_image 1 [''app''] (boot [])))) = [3] \<and>
   \<not> have_cxx (demo_image\<lparr>have_cxx := False\<rparr>) \<and>
   main_code counting_env 1 [''app''] [] = Main_returns 0 [] \<and>
   start counting_env (demo_image\<lparr>have_cxx := False\<rparr>) 1 [''app''] (boot []) =
     Terminated \<lparr>ar_sigtramp = Some 4096, atexit_hooks = [], exit_status = Some 0,
       events = [Write_sigtramp 4096, Call_main 1 [''app''], Main_returned 0, Call_exit 0],
       user = []\<rparr>"
proof -
  have c: "have_cxx demo_image" "\<not> have_cxx (demo_image\<lparr>have_cxx := False\<rparr>)"
    "sig_trampoline_addr (demo_image\<lparr>have_cxx := False\<rparr>) = 4096"
    by (simp_all add: demo_image_def)
  let ?t2 = "\<lparr>ar_sigtramp = Some 4096, atexit_hooks = [], exit_status = None,
       events = [Write_sigtramp 4096, Invoke Preinit 11], user = [11 :: fnptr]\<rparr>"
  let ?t3 = "\<lparr>ar_sigtramp = Some 4096, atexit_hooks = [], exit_status = None,
       events = [Write_sigtramp 4096, Invoke Preinit 11, Invoke Init 21, Invoke Init 22],
       user = [11, 21, 22 :: fnptr]\<rparr>"
  have m: "main_code counting_env 1 [''app''] (user ?t3) = Main_returns 3 [11, 21, 22]"
    by (simp add: counting_run(3))
  from exit_status_is_mains_return_value
    [where env = counting_env and img = demo_image and argc = 1 and argv = "[''app'']"
       and u = "[]" and tp = ?t2 and ti = ?t3 and r = 3 and u' = "[11, 21, 22]"]
    c(1) counting_run(1) counting_run(2) m
  have a: "exit_status (task_of (start counting_env demo_image 1 [''app''] (boot []))) = Some 3 \<and>
      exit_calls (events (task_of (start counting_env demo_image 1 [''app''] (boot [])))) = [3]"
    by blast
  from exit_status_is_mains_return_value
    [where env = counting_env and img = "demo_image\<lparr>have_cxx := False\<rparr>" and argc = 1
       and argv = "[''app'']" and u = "[]" and r = 0 and u' = "[]"]
    c(2) counting_run(4)
  have b: "start counting_env (demo_image\<lparr>have_cxx := False\<rparr>) 1 [''app''] (boot []) =
     Terminated \<lparr>ar_sigtramp = Some 4096, atexit_hooks = [], exit_status = Some 0,
       events = [Write_sigtramp 4096, Call_main 1 [''app''], Main_returned 0, Call_exit 0],
       user = []\<rparr>"
    by (simp add: c(3))
  from a b c(1) c(2) counting_run(3) counting_run(4) show ?thesis by blast
qed

text \<open>
  Claim C10. Without \<open>CONFIG_HAVE_CXX\<close> the entry point goes from the write of the
  trampoline address straight to the call of \<open>main\<close>: there is no \<open>atexit\<close> call,
  the registry of exit functions is empty at the end, and no entry of any
  initializer array is called in the whole run, the fini array included.
\<close>

theorem no_cxx_no_fini_registration:
  assumes "\<not> have_cxx img"
  shows "(\<exists>rest. events (task_of (start env img argc argv (boot u))) =
            Write_sigtramp (sig_trampoline_addr img) # Call_main argc argv # rest) \<and>
         filter is_atexit (events (task_of (start env img argc argv (boot u)))) = [] \<and>
         atexit_hooks (task_of (start env img argc argv (boot u))) = [] \<and>
         invoked (events (task_of (start env img argc argv (boot u)))) = []"
proof -
  let ?t1 = "(boot u)\<lparr>ar_sigtramp := Some (sig_trampoline_addr img),
      events := events (boot u) @ [Write_sigtramp (sig_trampoline_addr img)]\<rparr>"
  have s: "start env img argc argv (boot u) = main_then_exit env img argc argv ?t1"
    using assms by (simp add: start_def)
  have h: "atexit_hooks ?t1 = [] \<or> atexit_hooks ?t1 = [Exec_fini]" "exit_status ?t1 = None"
    by (simp_all add: boot_simps)
  show ?thesis
    by (cases rule: main_then_exit_cases [OF h, of env img argc argv])
      (simp_all add: s task_of_def boot_simps)
qed

theorem no_cxx_no_fini_registration_witness:
  "\<not> have_cxx (demo_image\<lparr>have_cxx := False\<rparr>) \<and>
   events (task_of (start demo_env (demo_image\<lparr>have_cxx := False\<rparr>) 1 [''app''] (boot []))) =
     [Write_sigtramp 4096, Call_main 1 [''app''], Main_returned 7, Call_exit 7] \<and>
   atexit_hooks
     (task_of (start demo_env (demo_image\<lparr>have_cxx := False\<rparr>) 1 [''app''] (boot []))) = [] \<and>
   invoked
     (events (task_of (start demo_env (demo_image\<lparr>have_cxx := False\<rparr>) 1 [''app''] (boot [])))) =
     []"
proof -
  have h: "\<not> have_cxx (demo_image\<lparr>have_cxx := False\<rparr>)" by simp
  have e: "events
      (task_of (start demo_env (demo_image\<lparr>have_cxx := False\<rparr>) 1 [''app''] (boot []))) =
     [Write_sigtramp 4096, Call_main 1 [''app''], Main_returned 7, Call_exit 7]"
    by (simp add: demo_run_without_cxx task_of_def)
  from no_cxx_no_fini_registration [OF h, of demo_env 1 "[''app'']" "[]"] h e
  show ?thesis by blast
qed

lemma all_return_append:
  "all_return env (xs @ ys) = (all_return env xs \<and> all_return env ys)"
  by (auto simp: all_return_def)

lemma start_reaches_main:
  assumes cxx: "have_cxx img"
    and pre: "array_at (slots img) (preinit_array_start img) (preinit_array_end img) pre"
    and ini: "array_at (slots img) (init_array_start img) (init_array_end img) ini"
    and ret: "all_return env (pre @ ini)"
  shows "\<exists>u'. start env img argc argv t =
     main_then_exit env img argc argv
       (t\<lparr>ar_sigtramp := Some (sig_trampoline_addr img),
          atexit_hooks := Exec_fini # atexit_hooks t,
          events := events t @ Write_sigtramp (sig_trampoline_addr img) #
            map (Invoke Preinit) (nonnull pre) @ map (Invoke Init) (nonnull ini) @
            [Atexit Exec_fini],
          user := u'\<rparr>)"
proof -
  let ?t1 = "t\<lparr>ar_sigtramp := Some (sig_trampoline_addr img),
      events := events t @ [Write_sigtramp (sig_trampoline_addr img)]\<rparr>"
  from ret have r1: "all_return env pre" and r2: "all_return env ini"
    by (simp_all add: all_return_append)
  obtain u1 where p: "exec_preinit env img ?t1 =
      Inr (?t1\<lparr>events := events ?t1 @ map (Invoke Preinit) (nonnull pre), user := u1\<rparr>)"
    using executor_array [OF pre r1, of Preinit ?t1] by (auto simp: exec_preinit_executor)
  let ?t2 = "?t1\<lparr>events := events ?t1 @ map (Invoke Preinit) (nonnull pre), user := u1\<rparr>"
  obtain u2 where i: "exec_init env img ?t2 =
      Inr (?t2\<lparr>events := events ?t2 @ map (Invoke Init) (nonnull ini), user := u2\<rparr>)"
    using executor_array [OF ini r2, of Init ?t2] by (auto simp: exec_init_executor)
  have "start env img argc argv t =
     main_then_exit env img argc argv
       (t\<lparr>ar_sigtramp := Some (sig_trampoline_addr img),
          atexit_hooks := Exec_fini # atexit_hooks t,
          events := events t @ Write_sigtramp (sig_trampoline_addr img) #
            map (Invoke Preinit) (nonnull pre) @ map (Invoke Init) (nonnull ini) @
            [Atexit Exec_fini],
          user := u2\<rparr>)"
    using cxx p i by (cases t) (simp add: start_def atexit_def)
  then show ?thesis by blast
qed

lemma exit_runs_fini:
  assumes hooks: "atexit_hooks t = [Exec_fini]"
    and fin: "array_at (slots img) (fini_array_start img) (fini_array_end img) fin"
    and ret: "all_return env fin"
  shows "\<exists>u'. exit env img status t =
     Terminated (t\<lparr>events := events t @ Call_exit status # map (Invoke Fini) (nonnull fin),
       exit_status := (case exit_status t of None \<Rightarrow> Some status | Some s \<Rightarrow> Some s),
       atexit_hooks := [], user := u'\<rparr>)"
proof -
  let ?t1 = "t\<lparr>events := events t @ [Call_exit status],
      exit_status := (case exit_status t of None \<Rightarrow> Some status | Some s \<Rightarrow> Some s),
      atexit_hooks := []\<rparr>"
  obtain u1 where f: "exec_fini env img ?t1 =
      Inr (?t1\<lparr>events := events ?t1 @ map (Invoke Fini) (nonnull fin), user := u1\<rparr>)"
    using executor_array [OF fin ret, of Fini ?t1] by (auto simp: exec_fini_executor)
  have "exit env img status t =
     Terminated (t\<lparr>events := events t @ Call_exit status # map (Invoke Fini) (nonnull fin),
       exit_status := (case exit_status t of None \<Rightarrow> Some status | Some s \<Rightarrow> Some s),
       atexit_hooks := [], user := u1\<rparr>)"
    using hooks f by (cases t) (simp add: exit_def)
  then show ?thesis by blast
qed


lemma sorted_steps_Invoke: "sorted (map (lifecycle_step \<circ> Invoke ph) fs)"
  by (cases ph; induction fs) auto

lemma start_events_in_order:
  "sorted (map lifecycle_step (events (task_of (start env img argc argv (boot u)))))"
proof (cases rule: start_cases [of img env argc argv "boot u"])
  case no_cxx
  let ?t1 = "(boot u)\<lparr>ar_sigtramp := Some (sig_trampoline_addr img),
      events := events (boot u) @ [Write_sigtramp (sig_trampoline_addr img)]\<rparr>"
  have h: "atexit_hooks ?t1 = [] \<or> atexit_hooks ?t1 = [Exec_fini]" "exit_status ?t1 = None"
    by (simp_all add: boot_simps)
  show ?thesis
    by (cases rule: main_then_exit_cases [OF h, of env img argc argv])
      (auto simp: no_cxx task_of_def boot_simps sorted_append sorted_steps_Invoke)
next
  case (preinit_stops h pre u')
  then show ?thesis
    by (auto simp: task_of_def boot_simps sorted_append sorted_steps_Invoke)
next
  case (init_stops h pre ini u')
  then show ?thesis
    by (auto simp: task_of_def boot_simps sorted_append sorted_steps_Invoke)
next
  case (reaches_main pre ini u')
  let ?t1 = "(boot u)\<lparr>ar_sigtramp := Some (sig_trampoline_addr img),
      atexit_hooks := Exec_fini # atexit_hooks (boot u),
      events := events (boot u) @ Write_sigtramp (sig_trampoline_addr img) #
        map (Invoke Preinit) pre @ map (Invoke Init) ini @ [Atexit Exec_fini], user := u'\<rparr>"
  have h: "atexit_hooks ?t1 = [] \<or> atexit_hooks ?t1 = [Exec_fini]" "exit_status ?t1 = None"
    by (simp_all add: boot_simps)
  show ?thesis
    by (cases rule: main_then_exit_cases [OF h, of env img argc argv])
      (auto simp: reaches_main task_of_def boot_simps sorted_append sorted_steps_Invoke)
qed


lemma start_writes_first:
  "\<exists>rest. events (task_of (start env img argc argv (boot u))) =
      Write_sigtramp (sig_trampoline_addr img) # rest"
proof (cases rule: start_cases [of img env argc argv "boot u"])
  case no_cxx
  let ?t1 = "(boot u)\<lparr>ar_sigtramp := Some (sig_trampoline_addr img),
      events := events (boot u) @ [Write_sigtramp (sig_trampoline_addr img)]\<rparr>"
  have h: "atexit_hooks ?t1 = [] \<or> atexit_hooks ?t1 = [Exec_fini]" "exit_status ?t1 = None"
    by (simp_all add: boot_simps)
  show ?thesis
    by (cases rule: main_then_exit_cases [OF h, of env img argc argv])
      (simp_all add: no_cxx task_of_def boot_simps)
next
  case (preinit_stops h pre u')
  then show ?thesis by (simp add: task_of_def boot_simps)
next
  case (init_stops h pre ini u')
  then show ?thesis by (simp add: task_of_def boot_simps)
next
  case (reaches_main pre ini u')
  let ?t1 = "(boot u)\<lparr>ar_sigtramp := Some (sig_trampoline_addr img),
      atexit_hooks := Exec_fini # atexit_hooks (boot u),
      events := events (boot u) @ Write_sigtramp (sig_trampoline_addr img) #
        map (Invoke Preinit) pre @ map (Invoke Init) ini @ [Atexit Exec_fini], user := u'\<rparr>"
  have h: "atexit_hooks ?t1 = [] \<or> atexit_hooks ?t1 = [Exec_fini]" "exit_status ?t1 = None"
    by (simp_all add: boot_simps)
  show ?thesis
    by (cases rule: main_then_exit_cases [OF h, of env img argc argv])
      (simp_all add: reaches_main task_of_def boot_simps)
qed

lemma start_without_cxx_events:
  assumes "\<not> have_cxx img"
  shows "events (task_of (start env img argc argv (boot u))) =
     [Write_sigtramp (sig_trampoline_addr img), Call_main argc argv] @
     (case main_code env argc argv u of
        Main_returns r u' \<Rightarrow> [Main_returned r, Call_exit r]
      | Main_exits s u' \<Rightarrow> [Call_exit s]
      | Main_hangs \<Rightarrow> [])"
  using assms
  by (cases "main_code env argc argv u")
    (simp_all add: start_def main_then_exit_def exit_no_hooks task_of_def boot_simps)

lemma start_with_cxx_events:
  assumes cxx: "have_cxx img"
    and pre: "array_at (slots img) (preinit_array_start img) (preinit_array_end img) pre"
    and ini: "array_at (slots img) (init_array_start img) (init_array_end img) ini"
    and ret: "user_after env (pre @ ini) u = Some u1"
  shows "\<exists>fs. events (task_of (start env img argc argv (boot u))) =
     Write_sigtramp (sig_trampoline_addr img) #
     map (Invoke Preinit) (nonnull pre) @ map (Invoke Init) (nonnull ini) @
     [Atexit Exec_fini, Call_main argc argv] @
     (case main_code env argc argv u1 of
        Main_returns r u' \<Rightarrow> [Main_returned r, Call_exit r] @ map (Invoke Fini) fs
      | Main_exits s u' \<Rightarrow> [Call_exit s] @ map (Invoke Fini) fs
      | Main_hangs \<Rightarrow> [])"
proof -
  let ?ev = "Write_sigtramp (sig_trampoline_addr img) #
      map (Invoke Preinit) (nonnull pre) @ map (Invoke Init) (nonnull ini) @ [Atexit Exec_fini]"
  let ?t1 = "\<lparr>ar_sigtramp = Some (sig_trampoline_addr img), atexit_hooks = [Exec_fini],
      exit_status = None, events = ?ev, user = u1\<rparr>"
  have "user_after env (pre @ ini) (user (boot u)) = Some u1" using ret by (simp add: boot_simps)
  from start_enters_main [OF cxx pre ini this, of argc argv]
  have s: "start env img argc argv (boot u) = main_then_exit env img argc argv ?t1"
    by (simp add: boot_def)
  show ?thesis
  proof (cases "main_code env argc argv u1")
    case Main_hangs
    then show ?thesis by (simp add: s main_then_exit_def task_of_def)
  next
    case (Main_returns r u2)
    let ?t2 = "\<lparr>ar_sigtramp = Some (sig_trampoline_addr img), atexit_hooks = [Exec_fini],
      exit_status = None, events = ?ev @ [Call_main argc argv, Main_returned r], user = u2\<rparr>"
    have e: "start env img argc argv (boot u) = exit env img r ?t2"
      using Main_returns by (simp add: s main_then_exit_def)
    have "atexit_hooks ?t2 = [] \<or> atexit_hooks ?t2 = [Exec_fini]" by simp
    from exit_frame [OF this, of env img r] obtain fs where
      "events (task_of (exit env img r ?t2)) = events ?t2 @ Call_exit r # map (Invoke Fini) fs"
      by auto
    with Main_returns show ?thesis by (auto simp: e)
  next
    case (Main_exits r u2)
    let ?t2 = "\<lparr>ar_sigtramp = Some (sig_trampoline_addr img), atexit_hooks = [Exec_fini],
      exit_status = None, events = ?ev @ [Call_main argc argv], user = u2\<rparr>"
    have e: "start env img argc argv (boot u) = exit env img r ?t2"
      using Main_exits by (simp add: s main_then_exit_def)
    have "atexit_hooks ?t2 = [] \<or> atexit_hooks ?t2 = [Exec_fini]" by simp
    from exit_frame [OF this, of env img r] obtain fs where
      "events (task_of (exit env img r ?t2)) = events ?t2 @ Call_exit r # map (Invoke Fini) fs"
      by auto
    with Main_exits show ?thesis by (auto simp: e)
  qed
qed

text \<open>
  Claim C2 as stated lists the registration of the fini phase among the steps of every
  task start. In a build without \<open>CONFIG_HAVE_CXX\<close> the run is the write, the call
  of \<open>main\<close>, its return and the call of \<open>exit\<close>: there is no registration step.
\<close>

theorem start_without_cxx_skips_registration:
  "events (task_of (start demo_env (demo_image\<lparr>have_cxx := False\<rparr>) 2 [''app'', ''-v'']
      (boot []))) =
     [Write_sigtramp 4096, Call_main 2 [''app'', ''-v''], Main_returned 7, Call_exit 7] \<and>
   filter is_atexit
     (events (task_of (start demo_env (demo_image\<lparr>have_cxx := False\<rparr>) 2 [''app'', ''-v'']
        (boot [])))) = []"
  by code_simp

text \<open>
  Claim C2, amended. In every run the events come in the order of the life cycle (the
  write of the trampoline address, pre-init calls, init calls, the registration of
  \<open>exec_fini\<close>, the call of \<open>main\<close>, its return, the call of \<open>exit\<close>, fini
  calls), and the first event is the write. Without \<open>CONFIG_HAVE_CXX\<close> the run is
  exactly: the write, the call of \<open>main\<close> with \<open>argc\<close> and \<open>argv\<close>, and then what
  \<open>main\<close> does in the initial state: on its return of \<open>r\<close> the call \<open>exit(r)\<close>,
  on its own call of \<open>exit\<close> that call, otherwise nothing. With
  \<open>CONFIG_HAVE_CXX\<close>, over arrays whose initializers return: the write, the non-null
  pre-init entries, the non-null init entries, the registration, the call of \<open>main\<close>
  with \<open>argc\<close> and \<open>argv\<close> in the state the initializers leave, then on its return
  of \<open>r\<close> the call \<open>exit(r)\<close> (or \<open>main\<close>'s own call of \<open>exit\<close>), and only then
  calls of the fini phase.
\<close>

theorem start_lifecycle_order:
  "sorted (map lifecycle_step (events (task_of (start env img argc argv (boot u))))) \<and>
   (\<exists>rest. events (task_of (start env img argc argv (boot u))) =
      Write_sigtramp (sig_trampoline_addr img) # rest) \<and>
   (\<not> have_cxx img \<longrightarrow>
      events (task_of (start env img argc argv (boot u))) =
        [Write_sigtramp (sig_trampoline_addr img), Call_main argc argv] @
        (case main_code env argc argv u of
           Main_returns r u' \<Rightarrow> [Main_returned r, Call_exit r]
         | Main_exits s u' \<Rightarrow> [Call_exit s]
         | Main_hangs \<Rightarrow> [])) \<and>
   (have_cxx img \<longrightarrow>
    array_at (slots img) (preinit_array_start img) (preinit_array_end img) pre \<longrightarrow>
    array_at (slots img) (init_array_start img) (init_array_end img) ini \<longrightarrow>
    user_after env (pre @ ini) u = Some u1 \<longrightarrow>
      (\<exists>fs. events (task_of (start env img argc argv (boot u))) =
         Write_sigtramp (sig_trampoline_addr img) #
         map (Invoke Preinit) (nonnull pre) @ map (Invoke Init) (nonnull ini) @
         [Atexit Exec_fini, Call_main argc argv] @
         (case main_code env argc argv u1 of
            Main_returns r u' \<Rightarrow> [Main_returned r, Call_exit r] @ map (Invoke Fini) fs
          | Main_exits s u' \<Rightarrow> [Call_exit s] @ map (Invoke Fini) fs
          | Main_hangs \<Rightarrow> [])))"
  using start_events_in_order [of env img argc argv u] start_writes_first [of env img argc argv u]
    start_without_cxx_events [of img env argc argv u]
    start_with_cxx_events [of img pre ini env u u1 argc argv]
  by blast

theorem start_lifecycle_order_witness:
  "have_cxx demo_image \<and>
   user_after counting_env ([11] @ [21, 0, 22]) [] = Some [11, 21, 22] \<and>
   main_code counting_env 1 [''app''] [11, 21, 22] = Main_returns 3 [11, 21, 22] \<and>
   events (task_of (start counting_env demo_image 1 [''app''] (boot []))) =
     [Write_sigtramp 4096, Invoke Preinit 11, Invoke Init 21, Invoke Init 22,
      Atexit Exec_fini, Call_main 1 [''app''], Main_returned 3, Call_exit 3,
      Invoke Fini 31, Invoke Fini 32] \<and>
   \<not> have_cxx (demo_image\<lparr>have_cxx := False\<rparr>) \<and>
   events (task_of (start counting_env (demo_image\<lparr>have_cxx := False\<rparr>) 1 [''app''] (boot []))) =
     [Write_sigtramp 4096, Call_main 1 [''app''], Main_returned 0, Call_exit 0] \<and>
   sorted (map lifecycle_step
     (events (task_of (start counting_env demo_image 1 [''app''] (boot [])))))"
proof -
  have c: "have_cxx demo_image" "\<not> have_cxx (demo_image\<lparr>have_cxx := False\<rparr>)"
    "sig_trampoline_addr (demo_image\<lparr>have_cxx := False\<rparr>) = 4096"
    by (simp_all add: demo_image_def)
  have e: "events (task_of (start counting_env demo_image 1 [''app''] (boot []))) =
     [Write_sigtramp 4096, Invoke Preinit 11, Invoke Init 21, Invoke Init 22,
      Atexit Exec_fini, Call_main 1 [''app''], Main_returned 3, Call_exit 3,
      Invoke Fini 31, Invoke Fini 32]"
    by (simp add: counting_start task_of_def)
  have n: "events
      (task_of (start counting_env (demo_image\<lparr>have_cxx := False\<rparr>) 1 [''app''] (boot []))) =
     [Write_sigtramp 4096, Call_main 1 [''app''], Main_returned 0, Call_exit 0]"
    using start_lifecycle_order
      [where env = counting_env and argc = 1 and argv = "[''app'']"
         and img = "demo_image\<lparr>have_cxx := False\<rparr>" and u = "[]"] c
    by (simp add: counting_run(4))
  have s: "sorted (map lifecycle_step
      (events (task_of (start counting_env demo_image 1 [''app''] (boot [])))))"
    using start_lifecycle_order [where env = counting_env and img = demo_image] by blast
  from c e n s counting_run(3) counting_run(5) show ?thesis by blast
qed

text \<open>
  Claim C6 as stated fails for a build without \<open>CONFIG_HAVE_CXX\<close>: the image has a
  fini array with two entries, \<open>main\<close> returns 7 and the task ends with status 7, and
  no fini entry has been called; nothing was registered.
\<close>

theorem fini_phase_not_run_without_cxx:
  "array_at (slots (demo_image\<lparr>have_cxx := False\<rparr>))
     (fini_array_start (demo_image\<lparr>have_cxx := False\<rparr>))
     (fini_array_end (demo_image\<lparr>have_cxx := False\<rparr>)) [31, 32] \<and>
   start demo_env (demo_image\<lparr>have_cxx := False\<rparr>) 1 [''app''] (boot []) =
     Terminated \<lparr>ar_sigtramp = Some 4096, atexit_hooks = [], exit_status = Some 7,
       events = [Write_sigtramp 4096, Call_main 1 [''app''], Main_returned 7, Call_exit 7],
       user = []\<rparr>"
  by code_simp

text \<open>
  Claim C6, amended. In a build with \<open>CONFIG_HAVE_CXX\<close>, over arrays whose
  initializers return, and when \<open>main\<close> returns or calls \<open>exit\<close> itself: the start-up
  registers \<open>exec_fini\<close> before calling \<open>main\<close>; every non-null entry of the fini
  array is called exactly once, in array order, after the call of \<open>exit\<close> and so
  after \<open>main\<close> has returned or exited; no fini entry is called before that; and a
  further call of \<open>exit\<close> on the ended task calls none again.
\<close>

theorem fini_phase_runs_once_at_exit:
  assumes cxx: "have_cxx img"
    and pre: "array_at (slots img) (preinit_array_start img) (preinit_array_end img) pre"
    and ini: "array_at (slots img) (init_array_start img) (init_array_end img) ini"
    and fin: "array_at (slots img) (fini_array_start img) (fini_array_end img) fin"
    and ret: "all_return env (pre @ ini @ fin)"
    and main: "\<And>u. main_code env argc argv u \<noteq> Main_hangs"
  shows "\<exists>tf s returned.
     start env img argc argv (boot u) = Terminated tf \<and>
     events tf =
       Write_sigtramp (sig_trampoline_addr img) #
       map (Invoke Preinit) (nonnull pre) @ map (Invoke Init) (nonnull ini) @
       [Atexit Exec_fini, Call_main argc argv] @ returned @ [Call_exit s] @
       map (Invoke Fini) (nonnull fin) \<and>
     (returned = [] \<or> returned = [Main_returned s]) \<and>
     (\<forall>s2. events (task_of (exit env img s2 tf)) = events tf @ [Call_exit s2])"
proof -
  let ?ev = "Write_sigtramp (sig_trampoline_addr img) #
      map (Invoke Preinit) (nonnull pre) @ map (Invoke Init) (nonnull ini) @ [Atexit Exec_fini]"
  from ret have r1: "all_return env (pre @ ini)" and r2: "all_return env fin"
    by (simp_all add: all_return_append)
  from start_reaches_main [OF cxx pre ini r1, of argc argv "boot u"] obtain u1 where
    s: "start env img argc argv (boot u) =
      main_then_exit env img argc argv
        ((boot u)\<lparr>ar_sigtramp := Some (sig_trampoline_addr img),
           atexit_hooks := Exec_fini # atexit_hooks (boot u),
           events := events (boot u) @ ?ev, user := u1\<rparr>)"
    by auto
  have "\<exists>s returned u2. (returned = [] \<or> returned = [Main_returned s]) \<and>
      start env img argc argv (boot u) =
        exit env img s \<lparr>ar_sigtramp = Some (sig_trampoline_addr img),
          atexit_hooks = [Exec_fini], exit_status = None,
          events = ?ev @ [Call_main argc argv] @ returned, user = u2\<rparr>"
  proof (cases "main_code env argc argv u1")
    case Main_hangs
    with main show ?thesis by simp
  next
    case (Main_returns r u2)
    with s have "start env img argc argv (boot u) =
        exit env img r \<lparr>ar_sigtramp = Some (sig_trampoline_addr img),
          atexit_hooks = [Exec_fini], exit_status = None,
          events = ?ev @ [Call_main argc argv] @ [Main_returned r], user = u2\<rparr>"
      by (simp add: main_then_exit_def boot_def)
    then show ?thesis by blast
  next
    case (Main_exits r u2)
    with s have "start env img argc argv (boot u) =
        exit env img r \<lparr>ar_sigtramp = Some (sig_trampoline_addr img),
          atexit_hooks = [Exec_fini], exit_status = None,
          events = ?ev @ [Call_main argc argv] @ [], user = u2\<rparr>"
      by (simp add: main_then_exit_def boot_def)
    then show ?thesis by blast
  qed
  then obtain s returned u2 where
    rt: "returned = [] \<or> returned = [Main_returned s]" and
    e: "start env img argc argv (boot u) =
        exit env img s \<lparr>ar_sigtramp = Some (sig_trampoline_addr img),
          atexit_hooks = [Exec_fini], exit_status = None,
          events = ?ev @ [Call_main argc argv] @ returned, user = u2\<rparr>"
    by blast
  let ?t2 = "\<lparr>ar_sigtramp = Some (sig_trampoline_addr img),
          atexit_hooks = [Exec_fini], exit_status = None,
          events = ?ev @ [Call_main argc argv] @ returned, user = u2\<rparr>"
  have "atexit_hooks ?t2 = [Exec_fini]" by simp
  from exit_runs_fini [OF this fin r2, of s] obtain u3 where
    x: "exit env img s ?t2 =
      Terminated (?t2\<lparr>events := events ?t2 @ Call_exit s # map (Invoke Fini) (nonnull fin),
        exit_status := (case exit_status ?t2 of None \<Rightarrow> Some s | Some s' \<Rightarrow> Some s'),
        atexit_hooks := [], user := u3\<rparr>)"
    by blast
  let ?tf = "\<lparr>ar_sigtramp = Some (sig_trampoline_addr img),
      atexit_hooks = [], exit_status = Some s,
      events = ?ev @ [Call_main argc argv] @ returned @ [Call_exit s] @
        map (Invoke Fini) (nonnull fin), user = u3\<rparr>"
  have "start env img argc argv (boot u) = Terminated ?tf"
    using e x by simp
  moreover have "events ?tf =
       Write_sigtramp (sig_trampoline_addr img) #
       map (Invoke Preinit) (nonnull pre) @ map (Invoke Init) (nonnull ini) @
       [Atexit Exec_fini, Call_main argc argv] @ returned @ [Call_exit s] @
       map (Invoke Fini) (nonnull fin)"
    by simp
  moreover have "\<forall>s2. events (task_of (exit env img s2 ?tf)) = events ?tf @ [Call_exit s2]"
    by (simp add: exit_no_hooks task_of_def)
  ultimately show ?thesis using rt by blast
qed

theorem fini_phase_runs_once_at_exit_witness:
  "have_cxx demo_image \<and>
   all_return demo_env ([11] @ [21, 0, 22] @ [31, 32]) \<and>
   (\<exists>tf. start demo_env demo_image 1 [''app''] (boot []) = Terminated tf \<and>
      events tf =
        [Write_sigtramp 4096, Invoke Preinit 11, Invoke Init 21, Invoke Init 22,
         Atexit Exec_fini, Call_main 1 [''app''], Main_returned 7, Call_exit 7,
         Invoke Fini 31, Invoke Fini 32] \<and>
      events (task_of (exit demo_env demo_image 9 tf)) = events tf @ [Call_exit 9])"
proof -
  have c: "have_cxx demo_image" by (simp add: demo_image_def)
  have m: "main_code demo_env 1 [''app''] u \<noteq> Main_hangs" for u
    by (simp add: demo_main)
  from fini_phase_runs_once_at_exit
    [OF c demo_arrays demo_all_return m, of "[]"]
  obtain tf where
    t: "start demo_env demo_image 1 [''app''] (boot []) = Terminated tf" and
    x: "\<forall>s2. events (task_of (exit demo_env demo_image s2 tf)) = events tf @ [Call_exit s2]"
    by blast
  from t have "events tf =
        [Write_sigtramp 4096, Invoke Preinit 11, Invoke Init 21, Invoke Init 22,
         Atexit Exec_fini, Call_main 1 [''app''], Main_returned 7, Call_exit 7,
         Invoke Fini 31, Invoke Fini 32]"
    by (auto simp: demo_run)
  with t x c demo_all_return show ?thesis by blast
qed

subsection \<open>The signal trampoline, run\<close>

text \<open>
  The twelve instructions, run from any state: the state in which the handler is
  entered, and the state and requests at the \<open>ecall\<close> when the handler returns. The
  only store of the trampoline is the one of \<open>ra\<close> into its frame.
\<close>

lemma run_sig_trampoline_code:
  "run code link (sig_trampoline_code fsz sysno) c [] =
     (let c1 = c\<lparr>regs := (regs c)(SP := regs c SP - word_of_int fsz, T0 := regs c A0,
                   A0 := regs c A1, A1 := regs c A2, A2 := regs c A3, RA := link),
                 mem := (mem c)(regs c SP - word_of_int fsz := regs c RA)\<rparr>;
          tr1 = [Handler_call (regs c A0) (regs c A1) (regs c A2) (regs c A3)]
      in case code (regs c A0) c1 of
           None \<Rightarrow> (Handler_no_return, c1, tr1)
         | Some c2 \<Rightarrow>
             (Trap,
              c2\<lparr>regs := (regs c2)(RA := mem c2 (regs c2 SP),
                    SP := regs c2 SP + word_of_int fsz, A0 := word_of_int sysno)\<rparr>,
              tr1 @ [Ecall (word_of_int sysno)]))"
  by (cases c) (auto simp: sig_trampoline_code_def Let_def fun_upd_twist split: option.splits)


text \<open>
  Claim C1. Entered with the handler in \<open>a0\<close> and signo, info and context in
  \<open>a1\<close>, \<open>a2\<close>, \<open>a3\<close>, the trampoline calls the handler once, with signo, info
  and context as its first three arguments in that order; when the handler returns it
  issues one privileged request, numbered \<open>SYS_signal_handler_return\<close>, and it issues
  no other request.
\<close>

theorem sig_trampoline_calls_handler_then_returns:
  assumes "\<And>c1. code (regs c A0) c1 \<noteq> None"
  shows "\<exists>c'. sig_trampoline code link fsz sysno c =
     (Trap, c',
      [Handler_call (regs c A0) (regs c A1) (regs c A2) (regs c A3),
       Ecall (word_of_int sysno)])"
  using assms [of "c\<lparr>regs := (regs c)(SP := regs c SP - word_of_int fsz, T0 := regs c A0,
                   A0 := regs c A1, A1 := regs c A2, A2 := regs c A3, RA := link),
                 mem := (mem c)(regs c SP - word_of_int fsz := regs c RA)\<rparr>"]
  by (auto simp: sig_trampoline_def run_sig_trampoline_code Let_def)

theorem sig_trampoline_calls_handler_then_returns_witness:
  "(\<forall>c1. demo_handler (regs demo_cpu A0) c1 \<noteq> None) \<and>
   (\<exists>c'. sig_trampoline demo_handler 0x5678 16 7 demo_cpu =
      (Trap, c', [Handler_call 0x2000 10 0x3000 0x3100, Ecall 7]))"
proof -
  have h: "demo_handler (regs demo_cpu A0) c1 \<noteq> None" for c1
    by (simp add: demo_handler_def demo_cpu_def)
  show ?thesis
    using h sig_trampoline_calls_handler_then_returns
      [where code = demo_handler and c = demo_cpu and link = "0x5678" and fsz = 16
         and sysno = 7, OF h]
    by (simp add: demo_cpu_def)
qed




end
